theory Spec2Isabelle
  imports Main "HOL-Library.Char_ord" "HOL-Library.List_Lexorder"
begin

section \<open>Python strings\<close>

text \<open>
  The code generator \<^verbatim>\<open>gaphor/codegen/coder.py\<close> prints Python source text. Strings
  are character lists; an attribute that may be \<^verbatim>\<open>None\<close> in Python is an option. The
  functions of this section are the Python built-ins that the generator calls.
\<close>

text \<open>The double quote character, which the generated lines contain.\<close>

definition dq :: string where
  "dq = [CHR 0x22]"

text \<open>Interpolation \<^verbatim>\<open>f"{x}"\<close> of a value that may be \<^verbatim>\<open>None\<close>.\<close>

definition fmt :: "string option \<Rightarrow> string" where
  "fmt x = (case x of None \<Rightarrow> ''None'' | Some s \<Rightarrow> s)"

text \<open>Truth value of an optional string: \<^verbatim>\<open>None\<close> and the empty string are false.\<close>

definition truthy :: "string option \<Rightarrow> bool" where
  "truthy x = (case x of None \<Rightarrow> False | Some s \<Rightarrow> s \<noteq> [])"

text \<open>The expression \<^verbatim>\<open>x or ""\<close>, the sort key of members.\<close>

definition or_empty :: "string option \<Rightarrow> string" where
  "or_empty x = (case x of None \<Rightarrow> [] | Some s \<Rightarrow> s)"

definition endswith :: "string \<Rightarrow> string \<Rightarrow> bool" where
  "endswith s suf = (length suf \<le> length s \<and> drop (length s - length suf) s = suf)"

definition startswith :: "string \<Rightarrow> string \<Rightarrow> bool" where
  "startswith s pre = (take (length pre) s = pre)"

fun join :: "string \<Rightarrow> string list \<Rightarrow> string" where
  "join sep [] = []"
| "join sep [x] = x"
| "join sep (x # y # ys) = x @ sep @ join sep (y # ys)"

text \<open>
  \<^verbatim>\<open>str.title()\<close> on ASCII text: a letter that follows a letter is lower-cased, a
  letter that does not is upper-cased, any other character is kept.
\<close>

definition is_lower :: "char \<Rightarrow> bool" where
  "is_lower c = (CHR ''a'' \<le> c \<and> c \<le> CHR ''z'')"

definition is_upper :: "char \<Rightarrow> bool" where
  "is_upper c = (CHR ''A'' \<le> c \<and> c \<le> CHR ''Z'')"

definition to_upper :: "char \<Rightarrow> char" where
  "to_upper c = char_of (of_char c - (32::nat))"

definition to_lower :: "char \<Rightarrow> char" where
  "to_lower c = char_of (of_char c + (32::nat))"

fun title_from :: "bool \<Rightarrow> string \<Rightarrow> string" where
  "title_from previous_is_cased [] = []"
| "title_from previous_is_cased (c # cs) =
     (if is_lower c then
        (if previous_is_cased then c else to_upper c) # title_from True cs
      else if is_upper c then
        (if previous_is_cased then to_lower c else c) # title_from True cs
      else c # title_from False cs)"

definition title :: "string \<Rightarrow> string" where
  "title s = title_from False s"

text \<open>\<^verbatim>\<open>s.split(",")\<close>: the pieces between the commas, at least one piece.\<close>

fun split_comma_from :: "string \<Rightarrow> string \<Rightarrow> string list" where
  "split_comma_from piece [] = [piece]"
| "split_comma_from piece (c # cs) =
     (if c = CHR '','' then piece # split_comma_from [] cs
      else split_comma_from (piece @ [c]) cs)"

definition split_comma :: "string \<Rightarrow> string list" where
  "split_comma s = split_comma_from [] s"

text \<open>\<^verbatim>\<open>s.strip()\<close>: the ASCII white space at both ends is removed.\<close>

definition is_space :: "char \<Rightarrow> bool" where
  "is_space c = (c \<in> {CHR '' '', CHR 0x09, CHR 0x0A, CHR 0x0B, CHR 0x0C, CHR 0x0D})"

definition strip :: "string \<Rightarrow> string" where
  "strip s = rev (dropWhile is_space (rev (dropWhile is_space s)))"

section \<open>The loaded model\<close>

text \<open>
  The element factory holds objects that refer to each other. An object is named by its
  identity, a number; the heap of the model gives the fields of each object. The
  generator reads these fields of the UML elements:
  a class has a name, generalizations (each with its general class), owned attributes,
  owned operations and applied stereotypes; a property has a name, a raw type string
  \<^verbatim>\<open>typeValue\<close>, a type reference, and the fields of an association end.
\<close>

type_synonym cid = nat
type_synonym pid = nat

text \<open>
  The association of a property: whether it is a \<^verbatim>\<open>UML.Extension\<close>, and the class of
  its owned end (\<^verbatim>\<open>a.association.ownedEnd.class_\<close>).
\<close>

record association =
  is_Extension :: bool
  ownedEnd_class :: cid

text \<open>A slot of an applied stereotype: \<^verbatim>\<open>slot.definingFeature.name\<close> and \<^verbatim>\<open>slot.value\<close>.\<close>

record slot =
  definingFeature_name :: "string option"
  slot_value :: "string option"

record property =
  name :: "string option"
  typeValue :: "string option"
  ptype :: "cid option"
  isDerived :: bool
  defaultValue :: "string option"
  upper_bound :: "string option"
  lowerValue :: "string option"
  upperValue :: "string option"
  aggregation :: "string option"
  association :: "association option"
  opposite :: "pid option"
  owning_class :: "cid option"
  owner :: cid
  slots :: "slot list"

text \<open>An operation: only its name is read.\<close>

record operation =
  op_name :: "string option"

text \<open>
  A class. \<^verbatim>\<open>generalization\<close> lists the general class of each generalization,
  \<^verbatim>\<open>stereotypes\<close> the names of the applied stereotypes, and \<^verbatim>\<open>in_profile\<close> is the
  result of \<^verbatim>\<open>is_in_profile\<close>, which walks the owning packages of the class.
\<close>

record class_element =
  class_name :: "string option"
  generalization :: "cid list"
  ownedAttribute :: "pid list"
  ownedOperation :: "operation list"
  stereotypes :: "string list"
  in_profile :: bool

text \<open>
  The element factory: the classes and the properties in the order in which
  \<^verbatim>\<open>select\<close> yields them, and the heap.
\<close>

record model =
  class_ids :: "cid list"
  class_at :: "cid \<Rightarrow> class_element"
  property_ids :: "pid list"
  property_at :: "pid \<Rightarrow> property"

text \<open>The errors that the generator raises.\<close>

datatype error =
  Unknown_default_value_type
  | Can_not_be_written
  | Unnamed_attribute
  | Property_value_type_not_found
  | IndexError
  | AttributeError
  | TypeError

text \<open>
  A computation that recurses over the generalizations may not return; the recursion
  depth is bounded by a fuel argument, and \<^term>\<open>None\<close> is the result of a run that
  needs more depth than the fuel allows. A computation that returns either raises an
  error or gives a value.
\<close>

type_synonym 'a result = "(error + 'a) option"

definition bind_result :: "'a result \<Rightarrow> ('a \<Rightarrow> 'b result) \<Rightarrow> 'b result" where
  "bind_result r f =
     (case r of None \<Rightarrow> None | Some (Inl e) \<Rightarrow> Some (Inl e) | Some (Inr x) \<Rightarrow> f x)"

definition bind_fuel :: "'a option \<Rightarrow> ('a \<Rightarrow> 'b result) \<Rightarrow> 'b result" where
  "bind_fuel r f = (case r of None \<Rightarrow> None | Some x \<Rightarrow> f x)"

text \<open>
  Python's \<^verbatim>\<open>any\<close> over a generator: the items are computed one by one, and the
  first true item ends the search. An item that does not return leaves the whole
  search without a result.
\<close>

fun any_lazy :: "bool option list \<Rightarrow> bool option" where
  "any_lazy [] = Some False"
| "any_lazy (None # xs) = None"
| "any_lazy (Some True # xs) = Some True"
| "any_lazy (Some False # xs) = any_lazy xs"

text \<open>A loop \<^verbatim>\<open>for x in xs: yield from f(x)\<close>; the first failure ends it.\<close>

fun concat_results :: "('a \<Rightarrow> string list result) \<Rightarrow> 'a list \<Rightarrow> string list result" where
  "concat_results f [] = Some (Inr [])"
| "concat_results f (x # xs) =
     bind_result (f x) (\<lambda>l. bind_result (concat_results f xs) (\<lambda>ls. Some (Inr (l @ ls))))"

section \<open>Predicates on classes and properties\<close>

definition is_enumeration :: "model \<Rightarrow> cid option \<Rightarrow> bool" where
  "is_enumeration m c =
     (case c of
        None \<Rightarrow> False
      | Some i \<Rightarrow>
          (case class_name (class_at m i) of
             None \<Rightarrow> False
           | Some s \<Rightarrow> s \<noteq> [] \<and> (endswith s ''Kind'' \<or> endswith s ''Sort'')))"

fun is_simple_type :: "nat \<Rightarrow> model \<Rightarrow> cid \<Rightarrow> bool option" where
  "is_simple_type 0 m c = None"
| "is_simple_type (Suc n) m c =
     (if ''SimpleAttribute'' \<in> set (stereotypes (class_at m c)) then Some True
      else any_lazy (map (is_simple_type n m) (generalization (class_at m c))))"

definition is_tilde_type :: "model \<Rightarrow> cid \<Rightarrow> bool" where
  "is_tilde_type m c =
     (case class_name (class_at m c) of
        None \<Rightarrow> False
      | Some s \<Rightarrow> s \<noteq> [] \<and> startswith s ''~'')"

definition is_extension_end :: "property \<Rightarrow> bool" where
  "is_extension_end a = (case association a of None \<Rightarrow> False | Some x \<Rightarrow> is_Extension x)"

text \<open>
  The bases of a class: the general class of each generalization, then the metaclass
  of each owned attribute named \<^verbatim>\<open>baseClass\<close> that is an association end.
\<close>

definition metaclass_of :: "property \<Rightarrow> cid list" where
  "metaclass_of a =
     (case association a of
        None \<Rightarrow> []
      | Some x \<Rightarrow> if name a = Some ''baseClass'' then [ownedEnd_class x] else [])"

definition bases :: "model \<Rightarrow> cid \<Rightarrow> cid list" where
  "bases m c =
     generalization (class_at m c)
     @ concat (map (\<lambda>i. metaclass_of (property_at m i)) (ownedAttribute (class_at m c)))"

text \<open>
  \<^verbatim>\<open>is_reassignment\<close>: an ancestor of the owner has an attribute of the same name.
\<close>

fun reassignment_test :: "nat \<Rightarrow> model \<Rightarrow> string option \<Rightarrow> cid \<Rightarrow> bool option" where
  "reassignment_test 0 m nm c = None"
| "reassignment_test (Suc n) m nm c =
     (if nm \<in> set (map (\<lambda>i. name (property_at m i)) (ownedAttribute (class_at m c)))
      then Some True
      else any_lazy (map (reassignment_test n m nm) (bases m c)))"

definition is_reassignment :: "nat \<Rightarrow> model \<Rightarrow> property \<Rightarrow> bool option" where
  "is_reassignment n m a = any_lazy (map (reassignment_test n m (name a)) (bases m (owner a)))"

definition redefines :: "property \<Rightarrow> string option" where
  "redefines a =
     (case find (\<lambda>s. definingFeature_name s = Some ''redefines'') (slots a) of
        None \<Rightarrow> None
      | Some s \<Rightarrow> slot_value s)"

section \<open>The class orderer\<close>

text \<open>
  \<^verbatim>\<open>order_classes\<close> keeps the set \<^verbatim>\<open>seen_classes\<close>; the state of the model is the
  list of the classes yielded so far and that set. \<^verbatim>\<open>order(c)\<close> does nothing for a
  seen class; otherwise it orders the bases of \<^verbatim>\<open>c\<close>, yields \<^verbatim>\<open>c\<close> and marks it.
\<close>

fun order :: "nat \<Rightarrow> model \<Rightarrow> cid \<Rightarrow> cid list \<times> cid set \<Rightarrow> (cid list \<times> cid set) option"
and order_all :: "nat \<Rightarrow> model \<Rightarrow> cid list \<Rightarrow> cid list \<times> cid set \<Rightarrow> (cid list \<times> cid set) option"
where
  "order 0 m c s = None"
| "order (Suc n) m c s =
     (if c \<in> snd s then Some s
      else case order_all n m (bases m c) s of
             None \<Rightarrow> None
           | Some s' \<Rightarrow> Some (fst s' @ [c], insert c (snd s')))"
| "order_all n m [] s = Some s"
| "order_all n m (c # cs) s =
     (case order n m c s of None \<Rightarrow> None | Some s' \<Rightarrow> order_all n m cs s')"

definition order_classes :: "nat \<Rightarrow> model \<Rightarrow> cid list \<Rightarrow> cid list option" where
  "order_classes n m cs = map_option fst (order_all n m cs ([], {}))"

text \<open>The graph that the orderer walks: an edge from each base to the class.\<close>

definition base_rel :: "model \<Rightarrow> (cid \<times> cid) set" where
  "base_rel m = {(b, c). b \<in> set (bases m c)}"

text \<open>The graph of the generalizations alone.\<close>

definition general_rel :: "model \<Rightarrow> (cid \<times> cid) set" where
  "general_rel m = {(g, c). g \<in> set (generalization (class_at m c))}"

section \<open>Pieces of the generated lines\<close>

definition default_value :: "property \<Rightarrow> error + string" where
  "default_value a =
     (case defaultValue a of
        None \<Rightarrow> Inr []
      | Some d \<Rightarrow>
          if d = [] then Inr []
          else if typeValue a = Some ''int'' then Inr ('', default='' @ title d)
          else if typeValue a = Some ''str'' then Inr ('', default='' @ dq @ d @ dq)
          else Inl Unknown_default_value_type)"

definition lower :: "property \<Rightarrow> string" where
  "lower a =
     (if lowerValue a \<in> {None, Some ''0''} then [] else '', lower='' @ fmt (lowerValue a))"

definition upper :: "property \<Rightarrow> string" where
  "upper a =
     (if upperValue a \<in> {None, Some ''*''} then [] else '', upper='' @ fmt (upperValue a))"

definition composite :: "property \<Rightarrow> string" where
  "composite a = (if aggregation a = Some ''composite'' then '', composite=True'' else [])"

definition opposite_text :: "model \<Rightarrow> property \<Rightarrow> string" where
  "opposite_text m a =
     (case opposite a of
        None \<Rightarrow> []
      | Some i \<Rightarrow>
          if truthy (name (property_at m i)) \<and> owning_class (property_at m i) \<noteq> None
          then '', opposite='' @ dq @ fmt (name (property_at m i)) @ dq
          else [])"

section \<open>The override table\<close>

text \<open>
  The class \<^verbatim>\<open>Overrides\<close> is read from a file; the generator calls
  \<^verbatim>\<open>has_override\<close>, \<^verbatim>\<open>get_override\<close> and \<^verbatim>\<open>get_type\<close> with a name, and reads
  \<^verbatim>\<open>header\<close>. The table is a parameter of the generator, and may be absent.
\<close>

record overrides =
  header_text :: "string option"
  has_override :: "string option \<Rightarrow> bool"
  get_override :: "string option \<Rightarrow> string"
  get_type :: "string option \<Rightarrow> string"

text \<open>The test \<^verbatim>\<open>overrides and overrides.has_override(key)\<close>.\<close>

definition overridden :: "overrides option \<Rightarrow> string option \<Rightarrow> bool" where
  "overridden ov key = (case ov of None \<Rightarrow> False | Some t \<Rightarrow> has_override t key)"

definition override_text :: "overrides option \<Rightarrow> string option \<Rightarrow> string" where
  "override_text ov key = (case ov of None \<Rightarrow> [] | Some t \<Rightarrow> get_override t key)"

definition override_type :: "overrides option \<Rightarrow> string option \<Rightarrow> string" where
  "override_type ov key = (case ov of None \<Rightarrow> [] | Some t \<Rightarrow> get_type t key)"

definition full_name :: "model \<Rightarrow> cid \<Rightarrow> string option \<Rightarrow> string" where
  "full_name m c member = fmt (class_name (class_at m c)) @ ''.'' @ fmt member"

section \<open>The declaration emitter\<close>

text \<open>
  \<^verbatim>\<open>class_declaration\<close>: the bases sorted by name and joined. Sorting or joining a
  base without a name raises \<^verbatim>\<open>TypeError\<close>.
\<close>

definition class_declaration :: "model \<Rightarrow> cid \<Rightarrow> error + string" where
  "class_declaration m c =
     (let names = map (\<lambda>b. class_name (class_at m b)) (bases m c) in
      if None \<in> set names then Inl TypeError
      else Inr (''class '' @ fmt (class_name (class_at m c)) @ ''(''
                @ join '', '' (sort_key (\<lambda>x. x) (map or_empty names)) @ ''):''))"

text \<open>The three default property lines of \<^verbatim>\<open>variables\<close>.\<close>

definition attribute_line :: "property \<Rightarrow> string \<Rightarrow> string" where
  "attribute_line a d =
     fmt (name a) @ '': _attribute['' @ fmt (typeValue a) @ ''] = _attribute('' @ dq
     @ fmt (name a) @ dq @ '', '' @ fmt (typeValue a) @ d @ '')''"

definition enumeration_line :: "model \<Rightarrow> property \<Rightarrow> cid \<Rightarrow> pid \<Rightarrow> string" where
  "enumeration_line m a t first =
     fmt (name a) @ '' = _enumeration('' @ dq @ fmt (name a) @ dq @ '', (''
     @ join '', '' (map (\<lambda>e. dq @ fmt (name (property_at m e)) @ dq)
                      (ownedAttribute (class_at m t)))
     @ ''), '' @ dq @ fmt (name (property_at m first)) @ dq @ '')''"

definition relation_line :: "model \<Rightarrow> property \<Rightarrow> cid \<Rightarrow> bool \<Rightarrow> string" where
  "relation_line m a t reassigned =
     fmt (name a) @ '': relation_''
     @ (if upper_bound a = Some ''1'' then ''one'' else ''many'')
     @ ''['' @ fmt (class_name (class_at m t)) @ '']''
     @ (if reassigned then ''  # type: ignore[assignment]'' else [])"

text \<open>
  The body of the loop over the sorted attributes: the lines that one attribute
  yields. The warning that the second branch logs is not part of the output.
\<close>

definition variable_line ::
  "nat \<Rightarrow> model \<Rightarrow> overrides option \<Rightarrow> cid \<Rightarrow> property \<Rightarrow> string list result" where
  "variable_line n m ov c a =
     (if is_extension_end a then Some (Inr [])
      else if overridden ov (Some (full_name m c (name a))) then
        Some (Inr [fmt (name a) @ '': '' @ override_type ov (Some (full_name m c (name a)))])
      else if isDerived a \<and> ptype a = None then Some (Inr [])
      else if truthy (typeValue a) then
        (case default_value a of
           Inl e \<Rightarrow> Some (Inl e)
         | Inr d \<Rightarrow> Some (Inr [attribute_line a d]))
      else if is_enumeration m (ptype a) then
        (case ptype a of
           None \<Rightarrow> Some (Inl Can_not_be_written)
         | Some t \<Rightarrow>
             (case ownedAttribute (class_at m t) of
                [] \<Rightarrow> Some (Inl IndexError)
              | first # rest \<Rightarrow> Some (Inr [enumeration_line m a t first])))
      else
        (case ptype a of
           Some t \<Rightarrow>
             bind_fuel (is_reassignment n m a) (\<lambda>r. Some (Inr [relation_line m a t r]))
         | None \<Rightarrow> Some (Inl Can_not_be_written)))"

definition operation_line ::
  "model \<Rightarrow> overrides option \<Rightarrow> cid \<Rightarrow> operation \<Rightarrow> string list result" where
  "operation_line m ov c opn =
     (if overridden ov (Some (full_name m c (op_name opn))) then
        Some (Inr [fmt (op_name opn) @ '': '' @ override_type ov (Some (full_name m c (op_name opn)))])
      else Some (Inr []))"

definition variables :: "nat \<Rightarrow> model \<Rightarrow> overrides option \<Rightarrow> cid \<Rightarrow> string list result" where
  "variables n m ov c =
     bind_result
       (concat_results (variable_line n m ov c)
          (sort_key (\<lambda>a. or_empty (name a))
             (map (property_at m) (ownedAttribute (class_at m c)))))
       (\<lambda>attrs.
          bind_result
            (concat_results (operation_line m ov c)
               (sort_key (\<lambda>opn. or_empty (op_name opn)) (ownedOperation (class_at m c))))
            (\<lambda>ops. Some (Inr (attrs @ ops))))"

definition operations :: "model \<Rightarrow> overrides option \<Rightarrow> cid \<Rightarrow> string list" where
  "operations m ov c =
     map (\<lambda>opn. override_text ov (Some (full_name m c (op_name opn))))
       (filter (\<lambda>opn. overridden ov (Some (full_name m c (op_name opn))))
          (sort_key (\<lambda>opn. or_empty (op_name opn)) (ownedOperation (class_at m c))))"

section \<open>The association emitter\<close>

text \<open>
  The test \<^verbatim>\<open>not a.type or is_simple_type(a.type) or is_enumeration(a.type) or
  is_extension_end(a)\<close>, evaluated from left to right.
\<close>

definition untyped_or_excluded :: "nat \<Rightarrow> model \<Rightarrow> property \<Rightarrow> bool option" where
  "untyped_or_excluded n m a =
     (case ptype a of
        None \<Rightarrow> Some True
      | Some t \<Rightarrow>
          (case is_simple_type n m t of
             None \<Rightarrow> None
           | Some True \<Rightarrow> Some True
           | Some False \<Rightarrow> Some (is_enumeration m (Some t) \<or> is_extension_end a)))"

definition type_name :: "model \<Rightarrow> property \<Rightarrow> string" where
  "type_name m a = (case ptype a of None \<Rightarrow> ''None'' | Some t \<Rightarrow> fmt (class_name (class_at m t)))"

definition redefine_line :: "model \<Rightarrow> cid \<Rightarrow> property \<Rightarrow> string" where
  "redefine_line m c a =
     full_name m c (name a) @ '' = redefine('' @ fmt (class_name (class_at m c)) @ '', '' @ dq
     @ fmt (name a) @ dq @ '', '' @ type_name m a @ '', '' @ fmt (redefines a) @ '')''"

definition derivedunion_line :: "model \<Rightarrow> cid \<Rightarrow> property \<Rightarrow> string" where
  "derivedunion_line m c a =
     full_name m c (name a) @ '' = derivedunion('' @ dq @ fmt (name a) @ dq @ '', ''
     @ type_name m a @ lower a @ upper a @ '')''"

definition association_line :: "model \<Rightarrow> cid \<Rightarrow> property \<Rightarrow> string" where
  "association_line m c a =
     full_name m c (name a) @ '' = association('' @ dq @ fmt (name a) @ dq @ '', ''
     @ type_name m a @ lower a @ upper a @ composite a @ opposite_text m a @ '')''"

text \<open>
  What the body of the loop of \<^verbatim>\<open>associations\<close> does with one attribute: nothing,
  a line yielded at once, or a line appended to \<^verbatim>\<open>redefinitions\<close>.
\<close>

datatype emission = Skip | Yield string | Defer string

definition association_step ::
  "nat \<Rightarrow> model \<Rightarrow> overrides option \<Rightarrow> cid \<Rightarrow> property \<Rightarrow> emission result" where
  "association_step n m ov c a =
     (if overridden ov (Some (full_name m c (name a))) then
        Some (Inr (Yield (override_text ov (Some (full_name m c (name a))))))
      else
        bind_fuel (untyped_or_excluded n m a)
          (\<lambda>skip.
             if skip then Some (Inr Skip)
             else if truthy (redefines a) then Some (Inr (Defer (redefine_line m c a)))
             else if isDerived a then Some (Inr (Yield (derivedunion_line m c a)))
             else if \<not> truthy (name a) then Some (Inl Unnamed_attribute)
             else Some (Inr (Yield (association_line m c a)))))"

fun associations_loop ::
  "nat \<Rightarrow> model \<Rightarrow> overrides option \<Rightarrow> cid \<Rightarrow> pid list \<Rightarrow> string list \<Rightarrow> string list
   \<Rightarrow> string list result" where
  "associations_loop n m ov c [] yielded redefinitions = Some (Inr (yielded @ redefinitions))"
| "associations_loop n m ov c (i # rest) yielded redefinitions =
     (case association_step n m ov c (property_at m i) of
        None \<Rightarrow> None
      | Some (Inl e) \<Rightarrow> Some (Inl e)
      | Some (Inr Skip) \<Rightarrow> associations_loop n m ov c rest yielded redefinitions
      | Some (Inr (Yield l)) \<Rightarrow> associations_loop n m ov c rest (yielded @ [l]) redefinitions
      | Some (Inr (Defer l)) \<Rightarrow> associations_loop n m ov c rest yielded (redefinitions @ [l]))"

definition associations :: "nat \<Rightarrow> model \<Rightarrow> overrides option \<Rightarrow> cid \<Rightarrow> string list result" where
  "associations n m ov c = associations_loop n m ov c (ownedAttribute (class_at m c)) [] []"

section \<open>Supermodels and subsets\<close>

text \<open>
  A supermodel is a package label with a loaded model. \<^verbatim>\<open>in_super_model\<close> gives the
  first class of that name, in the order of the supermodels, that is neither in a
  profile nor an enumeration.
\<close>

fun in_super_model ::
  "string option \<Rightarrow> (string \<times> model) list \<Rightarrow> (string \<times> model \<times> cid) option" where
  "in_super_model nm [] = None"
| "in_super_model nm ((pkg, factory) # rest) =
     (case find (\<lambda>c. class_name (class_at factory c) = nm
                     \<and> \<not> (in_profile (class_at factory c) \<or> is_enumeration factory (Some c)))
             (class_ids factory) of
        Some c \<Rightarrow> Some (pkg, factory, c)
      | None \<Rightarrow> in_super_model nm rest)"

text \<open>
  The loop \<^verbatim>\<open>for base in bases(c)\<close> of \<^verbatim>\<open>attribute\<close> returns at the first base in
  which the attribute is found.
\<close>

fun first_found ::
  "(string option \<times> 'a option) option list \<Rightarrow> (string option \<times> 'a option) option option" where
  "first_found [] = Some None"
| "first_found (None # xs) = None"
| "first_found (Some (pkg, Some a) # xs) = Some (Some (pkg, Some a))"
| "first_found (Some (pkg, None) # xs) = first_found xs"

text \<open>
  \<^verbatim>\<open>attribute\<close> looks a feature up by name: in the class, then in its bases, then in
  the supermodel class of the same name. The property found is given with its model.
\<close>

fun attribute ::
  "nat \<Rightarrow> model \<Rightarrow> cid \<Rightarrow> string \<Rightarrow> (string \<times> model) list
   \<Rightarrow> (string option \<times> (model \<times> property) option) option" where
  "attribute 0 m c nm sms = None"
| "attribute (Suc n) m c nm sms =
     (case find (\<lambda>i. name (property_at m i) = Some nm) (ownedAttribute (class_at m c)) of
        Some i \<Rightarrow> Some (None, Some (m, property_at m i))
      | None \<Rightarrow>
          (case first_found (map (\<lambda>b. attribute n m b nm sms) (bases m c)) of
             None \<Rightarrow> None
           | Some (Some r) \<Rightarrow> Some r
           | Some None \<Rightarrow>
               (case in_super_model (class_name (class_at m c)) sms of
                  None \<Rightarrow> Some (None, None)
                | Some (pkg, factory, sc) \<Rightarrow>
                    (case attribute n factory sc nm [] of
                       None \<Rightarrow> None
                     | Some (p, a) \<Rightarrow> Some (Some pkg, a)))))"

text \<open>The lines of \<^verbatim>\<open>subsets\<close> for one value of a \<^verbatim>\<open>subsets\<close> slot.\<close>

definition subset_lines ::
  "nat \<Rightarrow> model \<Rightarrow> (string \<times> model) list \<Rightarrow> cid \<Rightarrow> property \<Rightarrow> string
   \<Rightarrow> string list result" where
  "subset_lines n m sms c a v =
     bind_fuel (attribute n m c (strip v) sms)
       (\<lambda>(pkg, found).
          case found of
            None \<Rightarrow> Some (Inr [])
          | Some (dm, d) \<Rightarrow>
              if isDerived d then
                Some (Inr
                  ((if truthy pkg
                    then [''from '' @ fmt pkg @ '' import '' @ fmt (class_name (class_at dm (owner d)))]
                    else [])
                   @ [fmt (class_name (class_at dm (owner d))) @ ''.'' @ fmt (name d) @ ''.add(''
                      @ full_name m c (name a) @ '')  # type: ignore[attr-defined]'']))
              else Some (Inr []))"

definition slot_lines ::
  "nat \<Rightarrow> model \<Rightarrow> (string \<times> model) list \<Rightarrow> cid \<Rightarrow> property \<Rightarrow> slot \<Rightarrow> string list result" where
  "slot_lines n m sms c a s =
     (if definingFeature_name s = Some ''subsets'' then
        (case slot_value s of
           None \<Rightarrow> Some (Inl AttributeError)
         | Some v \<Rightarrow> concat_results (subset_lines n m sms c a) (split_comma v))
      else Some (Inr []))"

definition subsets_of ::
  "nat \<Rightarrow> model \<Rightarrow> (string \<times> model) list \<Rightarrow> cid \<Rightarrow> property \<Rightarrow> string list result" where
  "subsets_of n m sms c a =
     bind_fuel (untyped_or_excluded n m a)
       (\<lambda>skip. if skip then Some (Inr []) else concat_results (slot_lines n m sms c a) (slots a))"

definition subsets :: "nat \<Rightarrow> model \<Rightarrow> (string \<times> model) list \<Rightarrow> cid \<Rightarrow> string list result" where
  "subsets n m sms c =
     concat_results (subsets_of n m sms c) (map (property_at m) (ownedAttribute (class_at m c)))"

section \<open>The generator\<close>

definition header :: string where
  "header = concat (map (\<lambda>l. l @ [CHR 0x0A])
     [''# This file is generated by coder.py. DO NOT EDIT!'',
      ''# isort: skip_file'',
      ''# flake8: noqa F401,F811'',
      ''# fmt: off'',
      [],
      ''from __future__ import annotations'',
      [],
      ''from gaphor.core.modeling.properties import ('',
      ''    association,'',
      ''    attribute as _attribute,'',
      ''    derived,'',
      ''    derivedunion,'',
      ''    enumeration as _enumeration,'',
      ''    redefine,'',
      ''    relation_many,'',
      ''    relation_one,'',
      '')'',
      []])"

text \<open>
  The filter of the classes that are ordered:
  \<^verbatim>\<open>is_enumeration(c) or is_simple_type(c) or is_in_profile(c) or is_tilde_type(c)\<close>.
\<close>

definition excluded :: "nat \<Rightarrow> model \<Rightarrow> cid \<Rightarrow> bool option" where
  "excluded n m c =
     (if is_enumeration m (Some c) then Some True
      else case is_simple_type n m c of
             None \<Rightarrow> None
           | Some True \<Rightarrow> Some True
           | Some False \<Rightarrow> Some (in_profile (class_at m c) \<or> is_tilde_type m c))"

fun select_included :: "nat \<Rightarrow> model \<Rightarrow> cid list \<Rightarrow> cid list option" where
  "select_included n m [] = Some []"
| "select_included n m (c # cs) =
     (case excluded n m c of
        None \<Rightarrow> None
      | Some e \<Rightarrow>
          (case select_included n m cs of
             None \<Rightarrow> None
           | Some r \<Rightarrow> Some (if e then r else c # r)))"

text \<open>The list \<^verbatim>\<open>classes\<close> of \<^verbatim>\<open>coder\<close>.\<close>

definition coder_classes :: "nat \<Rightarrow> model \<Rightarrow> cid list option" where
  "coder_classes n m =
     (case select_included n m (class_ids m) of
        None \<Rightarrow> None
      | Some cs \<Rightarrow> order_classes n m cs)"

definition import_line :: "string \<Rightarrow> model \<Rightarrow> cid \<Rightarrow> string" where
  "import_line pkg factory sc =
     ''from '' @ pkg @ '' import '' @ fmt (class_name (class_at factory sc))"

text \<open>The lines of the first loop of \<^verbatim>\<open>coder\<close> for one class.\<close>

definition class_block ::
  "nat \<Rightarrow> model \<Rightarrow> (string \<times> model) list \<Rightarrow> overrides option \<Rightarrow> cid \<Rightarrow> string list result" where
  "class_block n m sms ov c =
     (if overridden ov (class_name (class_at m c)) then
        Some (Inr [override_text ov (class_name (class_at m c))])
      else
        (case in_super_model (class_name (class_at m c)) sms of
           Some (pkg, factory, sc) \<Rightarrow> Some (Inr [import_line pkg factory sc])
         | None \<Rightarrow>
             (case class_declaration m c of
                Inl e \<Rightarrow> Some (Inl e)
              | Inr d \<Rightarrow>
                  bind_result (variables n m ov c)
                    (\<lambda>ps. Some (Inr
                       ([d]
                        @ (if ps \<noteq> [] then map (\<lambda>p. ''    '' @ p) ps else [''    pass''])
                        @ [[], []]))))))"

text \<open>The import lines that the first loop records in \<^verbatim>\<open>already_imported\<close>.\<close>

definition first_imports ::
  "model \<Rightarrow> (string \<times> model) list \<Rightarrow> overrides option \<Rightarrow> cid list \<Rightarrow> string set" where
  "first_imports m sms ov cs =
     set (concat (map (\<lambda>c.
        if overridden ov (class_name (class_at m c)) then []
        else (case in_super_model (class_name (class_at m c)) sms of
                Some (pkg, factory, sc) \<Rightarrow> [import_line pkg factory sc]
              | None \<Rightarrow> [])) cs))"

text \<open>
  The last loop passes the lines of \<^verbatim>\<open>subsets\<close> on, except an import line that is
  in \<^verbatim>\<open>already_imported\<close>; every import line is recorded.
\<close>

fun pass_subsets :: "string list \<Rightarrow> string set \<Rightarrow> string list \<times> string set" where
  "pass_subsets [] imported = ([], imported)"
| "pass_subsets (l # ls) imported =
     (if startswith l ''from '' then
        (case pass_subsets ls (insert l imported) of
           (out, imported') \<Rightarrow> ((if l \<in> imported then [] else [l]) @ out, imported'))
      else
        (case pass_subsets ls imported of (out, imported') \<Rightarrow> (l # out, imported')))"

fun association_blocks ::
  "nat \<Rightarrow> model \<Rightarrow> (string \<times> model) list \<Rightarrow> overrides option \<Rightarrow> cid list \<Rightarrow> string set
   \<Rightarrow> string list result" where
  "association_blocks n m sms ov [] imported = Some (Inr [])"
| "association_blocks n m sms ov (c # cs) imported =
     bind_result (associations n m ov c)
       (\<lambda>al. bind_result (subsets n m sms c)
          (\<lambda>sl. case pass_subsets sl imported of
                  (out, imported') \<Rightarrow>
                    bind_result (association_blocks n m sms ov cs imported')
                      (\<lambda>rest. Some (Inr (al @ out @ rest)))))"

definition header_lines :: "overrides option \<Rightarrow> string list" where
  "header_lines ov =
     (case ov of
        None \<Rightarrow> []
      | Some t \<Rightarrow> if truthy (header_text t) then [fmt (header_text t)] else [])"

definition coder ::
  "nat \<Rightarrow> model \<Rightarrow> (string \<times> model) list \<Rightarrow> overrides option \<Rightarrow> string list result" where
  "coder n m sms ov =
     bind_fuel (coder_classes n m)
       (\<lambda>cs. bind_result (concat_results (class_block n m sms ov) cs)
          (\<lambda>decls. bind_result (association_blocks n m sms ov cs (first_imports m sms ov cs))
             (\<lambda>assocs. Some (Inr
                ([header] @ header_lines ov @ decls @ concat (map (operations m ov) cs)
                 @ [[]] @ assocs)))))"

section \<open>The type resolver\<close>

text \<open>
  The first statement of the loop body of \<^verbatim>\<open>resolve_attribute_type_values\<close>: an alias
  is replaced by its canonical name; any other raw type is looked up among the names
  of the classes, and the first class found becomes the type of the property.
\<close>

definition resolve_type_value :: "model \<Rightarrow> property \<Rightarrow> property" where
  "resolve_type_value m p =
     (if typeValue p \<in> {Some ''String'', Some ''str'', Some ''object''} then
        p\<lparr>typeValue := Some ''str''\<rparr>
      else if typeValue p \<in> {Some ''Integer'', Some ''int'', Some ''Boolean'', Some ''bool'',
                               Some ''UnlimitedNatural''} then
        p\<lparr>typeValue := Some ''int''\<rparr>
      else
        (case find (\<lambda>c. class_name (class_at m c) = typeValue p) (class_ids m) of
           Some c \<Rightarrow> p\<lparr>ptype := Some c, typeValue := None\<rparr>
         | None \<Rightarrow> p))"

text \<open>The second statement: a property of a simple type becomes a string.\<close>

definition resolve_simple_type :: "nat \<Rightarrow> model \<Rightarrow> property \<Rightarrow> property option" where
  "resolve_simple_type n m p =
     (case ptype p of
        None \<Rightarrow> Some p
      | Some t \<Rightarrow>
          (case is_simple_type n m t of
             None \<Rightarrow> None
           | Some True \<Rightarrow> Some (p\<lparr>typeValue := Some ''str'', ptype := None\<rparr>)
           | Some False \<Rightarrow> Some p))"

text \<open>The whole loop body, with the check that ends it.\<close>

definition resolve_property :: "nat \<Rightarrow> model \<Rightarrow> property \<Rightarrow> property result" where
  "resolve_property n m p =
     bind_fuel (resolve_simple_type n m (resolve_type_value m p))
       (\<lambda>q. if \<not> (ptype q \<noteq> None \<or> typeValue q \<in> {Some ''str'', Some ''int'', None})
            then Some (Inl Property_value_type_not_found)
            else Some (Inr q))"

fun resolve_loop :: "nat \<Rightarrow> model \<Rightarrow> pid list \<Rightarrow> model result" where
  "resolve_loop n m [] = Some (Inr m)"
| "resolve_loop n m (i # rest) =
     bind_result (resolve_property n m (property_at m i))
       (\<lambda>q. resolve_loop n (m\<lparr>property_at := (property_at m)(i := q)\<rparr>) rest)"

definition resolve_attribute_type_values :: "nat \<Rightarrow> model \<Rightarrow> model result" where
  "resolve_attribute_type_values n m = resolve_loop n m (property_ids m)"

section \<open>Example models\<close>

text \<open>A class and a property with every field empty, from which the examples are built.\<close>

definition blank_class :: class_element where
  "blank_class =
     \<lparr>class_name = None, generalization = [], ownedAttribute = [], ownedOperation = [],
      stereotypes = [], in_profile = False\<rparr>"

definition blank_property :: property where
  "blank_property =
     \<lparr>name = None, typeValue = None, ptype = None, isDerived = False, defaultValue = None,
      upper_bound = None, lowerValue = None, upperValue = None, aggregation = None,
      association = None, opposite = None, owning_class = None, owner = 0, slots = []\<rparr>"

text \<open>A class \<^verbatim>\<open>Foo\<close> with one string attribute \<^verbatim>\<open>name\<close>.\<close>

definition foo_model :: model where
  "foo_model =
     \<lparr>class_ids = [0],
      class_at = (\<lambda>i. if i = 0 then blank_class\<lparr>class_name := Some ''Foo'', ownedAttribute := [0]\<rparr>
                       else blank_class),
      property_ids = [0],
      property_at = (\<lambda>i. if i = 0
                          then blank_property\<lparr>name := Some ''name'', typeValue := Some ''str'',
                                                owning_class := Some 0\<rparr>
                          else blank_property)\<rparr>"

text \<open>An attribute with a default value and the raw type \<^verbatim>\<open>float\<close>.\<close>

definition float_property :: property where
  "float_property =
     blank_property\<lparr>name := Some ''ratio'', typeValue := Some ''float'',
                     defaultValue := Some ''1.0''\<rparr>"

text \<open>
  A model with a simple type \<^verbatim>\<open>Money\<close>, a class \<^verbatim>\<open>Price\<close> derived from it, and a
  class \<^verbatim>\<open>Order\<close> with five attributes: one of type \<^verbatim>\<open>Price\<close>, one with the raw
  type \<^verbatim>\<open>Integer\<close>, one with the raw type \<^verbatim>\<open>String\<close>, one with the raw type
  \<^verbatim>\<open>Integer\<close> that also refers to \<^verbatim>\<open>Money\<close>, and a derived one with no type at all. A sixth
  property, of the unknown raw type \<^verbatim>\<open>Colour\<close>, is only in the second model.
\<close>

definition order_classes_heap :: "cid \<Rightarrow> class_element" where
  "order_classes_heap i =
     (if i = 0 then blank_class\<lparr>class_name := Some ''Money'', stereotypes := [''SimpleAttribute'']\<rparr>
      else if i = 1 then blank_class\<lparr>class_name := Some ''Price'', generalization := [0]\<rparr>
      else if i = 2 then blank_class\<lparr>class_name := Some ''Order'', ownedAttribute := [0, 1, 2, 3, 4]\<rparr>
      else blank_class)"

definition order_properties_heap :: "pid \<Rightarrow> property" where
  "order_properties_heap i =
     (if i = 0 then blank_property\<lparr>name := Some ''amount'', ptype := Some 1, owner := 2\<rparr>
      else if i = 1 then blank_property\<lparr>name := Some ''count'', typeValue := Some ''Integer'', owner := 2\<rparr>
      else if i = 2 then blank_property\<lparr>name := Some ''label'', typeValue := Some ''String'', owner := 2\<rparr>
      else if i = 3 then blank_property\<lparr>name := Some ''total'', typeValue := Some ''Integer'',
                                           ptype := Some 0, owner := 2\<rparr>
      else if i = 4 then blank_property\<lparr>name := Some ''note'', isDerived := True, owner := 2\<rparr>
      else if i = 5 then blank_property\<lparr>name := Some ''shade'', typeValue := Some ''Colour'', owner := 2\<rparr>
      else blank_property)"

definition order_model :: model where
  "order_model =
     \<lparr>class_ids = [0, 1, 2], class_at = order_classes_heap,
      property_ids = [0, 1, 2, 3, 4], property_at = order_properties_heap\<rparr>"

definition colour_model :: model where
  "colour_model = order_model\<lparr>property_ids := [0, 1, 2, 3, 4, 5]\<rparr>"

text \<open>
  The invariant of the list that the orderer yields: no class twice, and the bases of
  each class at earlier positions.
\<close>

definition bases_first :: "model \<Rightarrow> cid list \<Rightarrow> bool" where
  "bases_first m out =
     (distinct out \<and> (\<forall>i<length out. set (bases m (out ! i)) \<subseteq> set (take i out)))"

text \<open>
  A model with a diamond of generalizations: \<^verbatim>\<open>Squircle\<close> is derived from \<^verbatim>\<open>Circle\<close>
  and \<^verbatim>\<open>Square\<close>, both derived from \<^verbatim>\<open>Shape\<close>, which is derived from \<^verbatim>\<open>Element\<close>.
  The class \<^verbatim>\<open>Styled\<close> has an association end named \<^verbatim>\<open>baseClass\<close> whose
  metaclass is \<^verbatim>\<open>Shape\<close>. The factory lists the classes in no particular order.
\<close>

definition shape_classes_heap :: "cid \<Rightarrow> class_element" where
  "shape_classes_heap i =
     (if i = 0 then blank_class\<lparr>class_name := Some ''Element''\<rparr>
      else if i = 1 then blank_class\<lparr>class_name := Some ''Shape'', generalization := [0]\<rparr>
      else if i = 2 then blank_class\<lparr>class_name := Some ''Circle'', generalization := [1]\<rparr>
      else if i = 3 then blank_class\<lparr>class_name := Some ''Square'', generalization := [1]\<rparr>
      else if i = 4 then blank_class\<lparr>class_name := Some ''Squircle'', generalization := [2, 3]\<rparr>
      else if i = 5 then blank_class\<lparr>class_name := Some ''Styled'', ownedAttribute := [0]\<rparr>
      else blank_class)"

definition shape_properties_heap :: "pid \<Rightarrow> property" where
  "shape_properties_heap i =
     (if i = 0 then
        blank_property\<lparr>name := Some ''baseClass'', ptype := Some 1,
                        association := Some \<lparr>is_Extension = True, ownedEnd_class = 1\<rparr>,
                        owning_class := Some 5, owner := 5\<rparr>
      else blank_property)"

definition shape_model :: model where
  "shape_model =
     \<lparr>class_ids = [4, 5, 2, 0, 3, 1], class_at = shape_classes_heap,
      property_ids = [0], property_at = shape_properties_heap\<rparr>"

text \<open>
  A model of a library. \<^verbatim>\<open>Book\<close> and \<^verbatim>\<open>Author\<close> are derived from \<^verbatim>\<open>Element\<close>;
  \<^verbatim>\<open>CoverKind\<close> is an enumeration with the values \<^verbatim>\<open>hard\<close> and \<^verbatim>\<open>soft\<close>. A book
  has a string attribute \<^verbatim>\<open>title\<close>, an end \<^verbatim>\<open>writer\<close> that redefines a feature, an
  association end \<^verbatim>\<open>authors\<close>, an attribute \<^verbatim>\<open>cover\<close> of the enumeration type, a
  derived union \<^verbatim>\<open>members\<close>, and an operation \<^verbatim>\<open>isbn\<close>.
\<close>

definition library_classes_heap :: "cid \<Rightarrow> class_element" where
  "library_classes_heap i =
     (if i = 0 then blank_class\<lparr>class_name := Some ''Element''\<rparr>
      else if i = 1 then
        blank_class\<lparr>class_name := Some ''Book'', generalization := [0],
                     ownedAttribute := [0, 1, 2, 3, 4],
                     ownedOperation := [\<lparr>op_name = Some ''isbn''\<rparr>]\<rparr>
      else if i = 2 then
        blank_class\<lparr>class_name := Some ''Author'', generalization := [0], ownedAttribute := [5]\<rparr>
      else if i = 3 then blank_class\<lparr>class_name := Some ''CoverKind'', ownedAttribute := [6, 7]\<rparr>
      else blank_class)"

definition library_properties_heap :: "pid \<Rightarrow> property" where
  "library_properties_heap i =
     (if i = 0 then
        blank_property\<lparr>name := Some ''title'', typeValue := Some ''str'',
                        owning_class := Some 1, owner := 1\<rparr>
      else if i = 1 then
        blank_property\<lparr>name := Some ''writer'', ptype := Some 2, upper_bound := Some ''1'',
                        owning_class := Some 1, owner := 1,
                        slots := [\<lparr>definingFeature_name = Some ''redefines'',
                                   slot_value = Some ''Element.owner''\<rparr>]\<rparr>
      else if i = 2 then
        blank_property\<lparr>name := Some ''authors'', ptype := Some 2, lowerValue := Some ''1'',
                        upperValue := Some ''*'', opposite := Some 5,
                        owning_class := Some 1, owner := 1\<rparr>
      else if i = 3 then
        blank_property\<lparr>name := Some ''cover'', ptype := Some 3, owning_class := Some 1, owner := 1\<rparr>
      else if i = 4 then
        blank_property\<lparr>name := Some ''members'', ptype := Some 0, isDerived := True,
                        owning_class := Some 1, owner := 1\<rparr>
      else if i = 5 then
        blank_property\<lparr>name := Some ''books'', ptype := Some 1, opposite := Some 2,
                        owning_class := Some 2, owner := 2\<rparr>
      else if i = 6 then
        blank_property\<lparr>name := Some ''hard'', owning_class := Some 3, owner := 3\<rparr>
      else if i = 7 then
        blank_property\<lparr>name := Some ''soft'', owning_class := Some 3, owner := 3\<rparr>
      else blank_property)"

definition library_model :: model where
  "library_model =
     \<lparr>class_ids = [1, 2, 3, 0], class_at = library_classes_heap,
      property_ids = [0, 1, 2, 3, 4, 5, 6, 7], property_at = library_properties_heap\<rparr>"

text \<open>An override table with an entry for one attribute and one for an operation.\<close>

definition library_overrides :: overrides where
  "library_overrides =
     \<lparr>header_text = None,
      has_override = (\<lambda>k. k \<in> {Some ''Book.authors'', Some ''Book.isbn''}),
      get_override = (\<lambda>k. if k = Some ''Book.authors'' then ''# authors are kept elsewhere''
                            else ''Book.isbn = operation(isbn)''),
      get_type = (\<lambda>k. if k = Some ''Book.authors'' then ''relation_many[Author]''
                        else ''str'')\<rparr>"

text \<open>An override table with an entry for the string attribute \<^verbatim>\<open>title\<close>.\<close>

definition title_overrides :: overrides where
  "title_overrides =
     \<lparr>header_text = None,
      has_override = (\<lambda>k. k = Some ''Book.title''),
      get_override = (\<lambda>k. ''# the title is computed''),
      get_type = (\<lambda>k. ''str'')\<rparr>"

text \<open>
  A model in which a class is derived from an enumeration: \<^verbatim>\<open>ExtendedVisibility\<close> has
  the enumeration \<^verbatim>\<open>VisibilityKind\<close> as its base. The two values of the enumeration
  carry the raw type \<^verbatim>\<open>str\<close>.
\<close>

definition kind_classes_heap :: "cid \<Rightarrow> class_element" where
  "kind_classes_heap i =
     (if i = 0 then blank_class\<lparr>class_name := Some ''VisibilityKind'', ownedAttribute := [0, 1]\<rparr>
      else if i = 1 then
        blank_class\<lparr>class_name := Some ''ExtendedVisibility'', generalization := [0]\<rparr>
      else blank_class)"

definition kind_properties_heap :: "pid \<Rightarrow> property" where
  "kind_properties_heap i =
     (if i = 0 then
        blank_property\<lparr>name := Some ''public'', typeValue := Some ''str'', owning_class := Some 0\<rparr>
      else if i = 1 then
        blank_property\<lparr>name := Some ''private'', typeValue := Some ''str'', owning_class := Some 0\<rparr>
      else blank_property)"

definition kind_model :: model where
  "kind_model =
     \<lparr>class_ids = [0, 1], class_at = kind_classes_heap,
      property_ids = [0, 1], property_at = kind_properties_heap\<rparr>"

text \<open>
  A model with an enumeration \<^verbatim>\<open>EmptySort\<close> that owns no value, and a class
  \<^verbatim>\<open>Holder\<close> with an attribute \<^verbatim>\<open>mode\<close> of that type.
\<close>

definition sort_model :: model where
  "sort_model =
     \<lparr>class_ids = [0, 1],
      class_at = (\<lambda>i. if i = 0 then blank_class\<lparr>class_name := Some ''EmptySort''\<rparr>
                       else if i = 1 then
                         blank_class\<lparr>class_name := Some ''Holder'', ownedAttribute := [0]\<rparr>
                       else blank_class),
      property_ids = [0],
      property_at = (\<lambda>i. if i = 0
                          then blank_property\<lparr>name := Some ''mode'', ptype := Some 0,
                                                owning_class := Some 1, owner := 1\<rparr>
                          else blank_property)\<rparr>"

section \<open>Properties of the generator\<close>

subsection \<open>Default values\<close>

text \<open>
  Claim C9. For an attribute with no default value (absent or empty),
  \<^verbatim>\<open>default_value\<close> returns the empty string and does not raise. When it raises, the
  error is the unknown default value type, the attribute has a default value, and its
  \<^verbatim>\<open>typeValue\<close> is neither \<^verbatim>\<open>int\<close> nor \<^verbatim>\<open>str\<close>.
\<close>

theorem default_value_fatal_only_with_default:
  "(\<not> truthy (defaultValue a) \<longrightarrow> default_value a = Inr [])
   \<and> (\<forall>e. default_value a = Inl e \<longrightarrow>
          e = Unknown_default_value_type \<and> truthy (defaultValue a)
          \<and> typeValue a \<noteq> Some ''int'' \<and> typeValue a \<noteq> Some ''str'')"
  by (auto simp: default_value_def truthy_def split: option.splits if_splits)

theorem default_value_fatal_only_with_default_witness:
  "\<not> truthy (defaultValue blank_property) \<and> default_value blank_property = Inr []
   \<and> default_value float_property = Inl Unknown_default_value_type
   \<and> truthy (defaultValue float_property)
   \<and> typeValue float_property \<noteq> Some ''int'' \<and> typeValue float_property \<noteq> Some ''str''"
  using default_value_fatal_only_with_default [of blank_property]
    default_value_fatal_only_with_default [of float_property]
  by (simp add: blank_property_def float_property_def truthy_def default_value_def)

subsection \<open>Fuel\<close>

text \<open>
  More fuel never changes a result, and on a finite acyclic generalization graph some
  amount of fuel is enough for every class.
\<close>

lemma any_lazy_mono:
  "any_lazy (map f xs) = Some b \<Longrightarrow> (\<And>x v. x \<in> set xs \<Longrightarrow> f x = Some v \<Longrightarrow> g x = Some v)
   \<Longrightarrow> any_lazy (map g xs) = Some b"
proof (induction xs)
  case Nil
  then show ?case by simp
next
  case (Cons x xs)
  show ?case
  proof (cases "f x")
    case None
    with Cons.prems(1) show ?thesis by simp
  next
    case (Some v)
    then have gx: "g x = Some v" using Cons.prems(2) by simp
    show ?thesis
    proof (cases v)
      case True
      with Some gx Cons.prems(1) show ?thesis by simp
    next
      case False
      with Some gx Cons.prems Cons.IH show ?thesis by simp
    qed
  qed
qed

lemma any_lazy_defined:
  "(\<And>x. x \<in> set xs \<Longrightarrow> f x \<noteq> None) \<Longrightarrow> any_lazy (map f xs) \<noteq> None"
proof (induction xs)
  case Nil
  then show ?case by simp
next
  case (Cons x xs)
  then obtain v where "f x = Some v" by fastforce
  with Cons show ?case by (cases v) simp_all
qed

lemma is_simple_type_Suc:
  "is_simple_type n m c = Some b \<Longrightarrow> is_simple_type (Suc n) m c = Some b"
proof (induction n arbitrary: c b)
  case 0
  then show ?case by simp
next
  case (Suc n)
  show ?case
  proof (cases "''SimpleAttribute'' \<in> set (stereotypes (class_at m c))")
    case True
    with Suc.prems show ?thesis by simp
  next
    case False
    with Suc.prems
    have "any_lazy (map (is_simple_type n m) (generalization (class_at m c))) = Some b"
      by simp
    then have "any_lazy (map (is_simple_type (Suc n) m) (generalization (class_at m c))) = Some b"
      by (rule any_lazy_mono) (rule Suc.IH)
    with False show ?thesis by simp
  qed
qed

lemma is_simple_type_mono:
  "is_simple_type n m c = Some b \<Longrightarrow> n \<le> k \<Longrightarrow> is_simple_type k m c = Some b"
  by (induction k) (auto simp: le_Suc_eq dest: is_simple_type_Suc simp del: is_simple_type.simps)

lemma fuel_for_all:
  assumes "\<And>x. x \<in> set xs \<Longrightarrow> \<exists>n::nat. \<forall>k\<ge>n. P k x"
  shows "\<exists>n::nat. \<forall>k\<ge>n. \<forall>x\<in>set xs. P k x"
  using assms
proof (induction xs)
  case Nil
  then show ?case by simp
next
  case (Cons x xs)
  then obtain n1 where n1: "\<forall>k\<ge>n1. \<forall>y\<in>set xs. P k y" by fastforce
  from Cons.prems obtain n2 where n2: "\<forall>k\<ge>n2. P k x" by fastforce
  have "\<forall>k\<ge>max n1 n2. \<forall>y\<in>set (x # xs). P k y"
    using n1 n2 by auto
  then show ?case by blast
qed

lemma is_simple_type_total:
  assumes "wf (general_rel m)"
  shows "\<exists>n. \<forall>k\<ge>n. is_simple_type k m c \<noteq> None"
  using assms
proof (induction c rule: wf_induct_rule)
  case (less c)
  have "\<And>g. g \<in> set (generalization (class_at m c))
          \<Longrightarrow> \<exists>n. \<forall>k\<ge>n. is_simple_type k m g \<noteq> None"
    using less by (simp add: general_rel_def)
  then obtain n where n: "\<forall>k\<ge>n. \<forall>g\<in>set (generalization (class_at m c)). is_simple_type k m g \<noteq> None"
    using fuel_for_all [of "generalization (class_at m c)" "\<lambda>k g. is_simple_type k m g \<noteq> None"]
    by blast
  have "is_simple_type k m c \<noteq> None" if "k \<ge> Suc n" for k
  proof -
    from that obtain j where k: "k = Suc j" and j: "j \<ge> n" by (cases k) auto
    have "any_lazy (map (is_simple_type j m) (generalization (class_at m c))) \<noteq> None"
      by (rule any_lazy_defined) (use n j in blast)
    then show ?thesis by (auto simp: k)
  qed
  then show ?case by blast
qed

lemma finite_fuel_for_all:
  assumes "finite S" "\<And>x. x \<in> S \<Longrightarrow> \<exists>n::nat. \<forall>k\<ge>n. P k x"
  shows "\<exists>n::nat. \<forall>k\<ge>n. \<forall>x\<in>S. P k x"
  using assms
proof (induction S rule: finite_induct)
  case empty
  then show ?case by simp
next
  case (insert x F)
  then obtain n1 where n1: "\<forall>k\<ge>n1. \<forall>y\<in>F. P k y" by fastforce
  from insert.prems obtain n2 where n2: "\<forall>k\<ge>n2. P k x" by fastforce
  have "\<forall>k\<ge>max n1 n2. \<forall>y\<in>insert x F. P k y"
    using n1 n2 by auto
  then show ?case by blast
qed

lemma is_simple_type_uniform:
  assumes fin: "finite (general_rel m)" and acyc: "acyclic (general_rel m)"
  shows "\<exists>N. \<forall>n\<ge>N. \<forall>c. is_simple_type n m c \<noteq> None"
proof -
  have wf: "wf (general_rel m)" using fin acyc by (rule finite_acyclic_wf)
  have "finite (snd ` general_rel m)" using fin by simp
  then obtain N where N: "\<forall>n\<ge>N. \<forall>c\<in>snd ` general_rel m. is_simple_type n m c \<noteq> None"
    using finite_fuel_for_all [of "snd ` general_rel m" "\<lambda>n c. is_simple_type n m c \<noteq> None"]
      is_simple_type_total [OF wf] by blast
  have "is_simple_type n m c \<noteq> None" if n: "n \<ge> max N 1" for n c
  proof (cases "generalization (class_at m c) = []")
    case True
    from n obtain j where "n = Suc j" by (cases n) auto
    with True show ?thesis by auto
  next
    case False
    then obtain g where "g \<in> set (generalization (class_at m c))"
      by (cases "generalization (class_at m c)") auto
    then have "(g, c) \<in> general_rel m" by (simp add: general_rel_def)
    then have "c \<in> snd ` general_rel m" by force
    with N n show ?thesis by auto
  qed
  then show ?thesis by blast
qed

lemma is_simple_type_agree:
  assumes "is_simple_type k m t = Some b" "is_simple_type n m t = Some b'"
  shows "b' = b"
proof -
  have "is_simple_type (max k n) m t = Some b" using assms(1) by (rule is_simple_type_mono) simp
  moreover have "is_simple_type (max k n) m t = Some b'" using assms(2) by (rule is_simple_type_mono) simp
  ultimately show ?thesis by simp
qed

lemma is_simple_type_heap:
  "class_at m' = class_at m \<Longrightarrow> is_simple_type n m' c = is_simple_type n m c"
  by (induction n arbitrary: c) (simp_all cong: map_cong)

subsection \<open>The type resolver\<close>

text \<open>
  The resolver reads the classes and writes the properties, so the step of one
  property does not depend on the steps before it.
\<close>

lemma resolve_property_heap:
  "class_at m' = class_at m \<Longrightarrow> class_ids m' = class_ids m
   \<Longrightarrow> resolve_property n m' p = resolve_property n m p"
proof -
  assume a: "class_at m' = class_at m" and b: "class_ids m' = class_ids m"
  have 1: "resolve_type_value m' p = resolve_type_value m p"
    unfolding resolve_type_value_def a b ..
  have 2: "resolve_simple_type n m' q = resolve_simple_type n m q" for q
    unfolding resolve_simple_type_def is_simple_type_heap [OF a] ..
  show ?thesis unfolding resolve_property_def 1 2 ..
qed

lemma resolve_property_error:
  "resolve_property n m p = Some (Inl e) \<Longrightarrow> e = Property_value_type_not_found"
  by (auto simp: resolve_property_def bind_fuel_def split: option.splits if_splits)

lemma resolve_loop_frame:
  "resolve_loop n m ids = Some (Inr m')
   \<Longrightarrow> class_at m' = class_at m \<and> class_ids m' = class_ids m
       \<and> property_ids m' = property_ids m
       \<and> (\<forall>i. i \<notin> set ids \<longrightarrow> property_at m' i = property_at m i)"
proof (induction ids arbitrary: m)
  case Nil
  then show ?case by simp
next
  case (Cons j ids)
  from Cons.prems obtain q where
    q: "resolve_property n m (property_at m j) = Some (Inr q)" and
    rest: "resolve_loop n (m\<lparr>property_at := (property_at m)(j := q)\<rparr>) ids = Some (Inr m')"
    by (auto simp: bind_result_def split: option.splits sum.splits)
  from Cons.IH [OF rest] show ?case by auto
qed

lemma resolve_loop_at:
  "resolve_loop n m ids = Some (Inr m') \<Longrightarrow> distinct ids \<Longrightarrow> i \<in> set ids
   \<Longrightarrow> resolve_property n m (property_at m i) = Some (Inr (property_at m' i))"
proof (induction ids arbitrary: m)
  case Nil
  then show ?case by simp
next
  case (Cons j ids)
  let ?m1 = "\<lambda>q. m\<lparr>property_at := (property_at m)(j := q)\<rparr>"
  from Cons.prems(1) obtain q where
    q: "resolve_property n m (property_at m j) = Some (Inr q)" and
    rest: "resolve_loop n (?m1 q) ids = Some (Inr m')"
    by (auto simp: bind_result_def split: option.splits sum.splits)
  show ?case
  proof (cases "i = j")
    case True
    then have "i \<notin> set ids" using Cons.prems(2) by simp
    with resolve_loop_frame [OF rest] have "property_at m' i = q" using True by simp
    with q True show ?thesis by simp
  next
    case False
    then have i: "i \<in> set ids" using Cons.prems(3) by simp
    have d: "distinct ids" using Cons.prems(2) by simp
    have "resolve_property n (?m1 q) (property_at (?m1 q) i) = Some (Inr (property_at m' i))"
      using Cons.IH [OF rest d i] .
    moreover have "resolve_property n (?m1 q) (property_at (?m1 q) i)
        = resolve_property n m (property_at m i)"
      using False resolve_property_heap [of "?m1 q" m n "property_at m i"] by simp
    ultimately show ?thesis by simp
  qed
qed

lemma resolve_loop_total:
  assumes N: "\<forall>c. is_simple_type n m c \<noteq> None"
  shows "class_at m' = class_at m \<Longrightarrow> resolve_loop n m' ids \<noteq> None"
proof (induction ids arbitrary: m')
  case Nil
  then show ?case by simp
next
  case (Cons j ids)
  have "resolve_property n m' (property_at m' j) \<noteq> None"
  proof -
    have st: "\<exists>b. is_simple_type n m' t = Some b" for t
      using N is_simple_type_heap [OF Cons.prems, of n t] by (metis not_None_eq)
    have "resolve_simple_type n m' q \<noteq> None" for q
    proof (cases "ptype q")
      case None
      then show ?thesis by (simp add: resolve_simple_type_def)
    next
      case (Some t)
      from st [of t] obtain b where "is_simple_type n m' t = Some b" ..
      with Some show ?thesis by (cases b) (simp_all add: resolve_simple_type_def)
    qed
    then show ?thesis
      by (auto simp: resolve_property_def bind_fuel_def split: option.splits)
  qed
  then obtain r where r: "resolve_property n m' (property_at m' j) = Some r" by auto
  show ?case
  proof (cases r)
    case (Inl e)
    with r show ?thesis by (simp add: bind_result_def)
  next
    case (Inr q)
    have "resolve_loop n (m'\<lparr>property_at := (property_at m')(j := q)\<rparr>) ids \<noteq> None"
      by (rule Cons.IH) (simp add: Cons.prems)
    with r Inr show ?thesis by (simp add: bind_result_def)
  qed
qed

lemma resolve_loop_aborts:
  "resolve_loop n m ids \<noteq> None \<Longrightarrow> distinct ids \<Longrightarrow> i \<in> set ids
   \<Longrightarrow> resolve_property n m (property_at m i) = Some (Inl e)
   \<Longrightarrow> resolve_loop n m ids = Some (Inl Property_value_type_not_found)"
proof (induction ids arbitrary: m)
  case Nil
  then show ?case by simp
next
  case (Cons j ids)
  let ?m1 = "\<lambda>q. m\<lparr>property_at := (property_at m)(j := q)\<rparr>"
  show ?case
  proof (cases "resolve_property n m (property_at m j)")
    case None
    with Cons.prems(1) show ?thesis by (simp add: bind_result_def)
  next
    case (Some r)
    show ?thesis
    proof (cases r)
      case (Inl e')
      with Some resolve_property_error [of n m "property_at m j" e'] show ?thesis
        by (simp add: bind_result_def)
    next
      case (Inr q)
      with Some Cons.prems(4) have ij: "i \<noteq> j" by auto
      have rest: "resolve_loop n m (j # ids) = resolve_loop n (?m1 q) ids"
        using Some Inr by (simp add: bind_result_def)
      have "resolve_loop n (?m1 q) ids = Some (Inl Property_value_type_not_found)"
      proof (rule Cons.IH)
        show "resolve_loop n (?m1 q) ids \<noteq> None" using Cons.prems(1) rest by simp
        show "distinct ids" using Cons.prems(2) by simp
        show "i \<in> set ids" using Cons.prems(3) ij by simp
        show "resolve_property n (?m1 q) (property_at (?m1 q) i) = Some (Inl e)"
          using Cons.prems(4) ij resolve_property_heap [of "?m1 q" m n "property_at m i"] by simp
      qed
      with rest show ?thesis by simp
    qed
  qed
qed

lemma general_rel_order_model: "general_rel order_model = {(0, 1)}"
  by (auto simp: general_rel_def order_model_def order_classes_heap_def blank_class_def split: if_splits)

lemma acyclic_single_edge: "acyclic {(0::nat, 1::nat)}"
  by (rule acyclicI_order [where f = "\<lambda>x. 2 - x"]) simp

lemma resolve_type_value_alias:
  assumes "typeValue p \<in> {Some ''String'', Some ''str'', Some ''object'', Some ''Integer'',
             Some ''int'', Some ''Boolean'', Some ''bool'', Some ''UnlimitedNatural''}"
  shows "ptype (resolve_type_value m p) = ptype p"
    and "typeValue (resolve_type_value m p)
         = (if typeValue p \<in> {Some ''String'', Some ''str'', Some ''object''}
            then Some ''str'' else Some ''int'')"
  using assms by (auto simp: resolve_type_value_def)

lemma finite_general_rel_order_model: "finite (general_rel order_model)"
  by (simp add: general_rel_order_model)

lemma acyclic_general_rel_order_model: "acyclic (general_rel order_model)"
  unfolding general_rel_order_model by (rule acyclic_single_edge)

text \<open>
  Claim C2, as amended. On a finite acyclic generalization graph, with enough fuel the
  resolver returns, and the step of a property whose raw type is one of
  \<^verbatim>\<open>String\<close>, \<^verbatim>\<open>str\<close>, \<^verbatim>\<open>object\<close> leaves the \<^verbatim>\<open>typeValue\<close> \<^verbatim>\<open>str\<close>; for a raw
  type among \<^verbatim>\<open>Integer\<close>, \<^verbatim>\<open>int\<close>, \<^verbatim>\<open>Boolean\<close>, \<^verbatim>\<open>bool\<close>, \<^verbatim>\<open>UnlimitedNatural\<close> it
  leaves \<^verbatim>\<open>int\<close>, unless the property also refers to a simple type, in which case it
  leaves \<^verbatim>\<open>str\<close>. When the whole run succeeds, the resolved model holds that property.
  The spelling of the alias plays no part.
\<close>

theorem alias_resolution:
  assumes fin: "finite (general_rel m)" and acyc: "acyclic (general_rel m)"
    and dist: "distinct (property_ids m)" and i: "i \<in> set (property_ids m)"
    and ali: "typeValue (property_at m i)
         \<in> {Some ''String'', Some ''str'', Some ''object'', Some ''Integer'', Some ''int'',
            Some ''Boolean'', Some ''bool'', Some ''UnlimitedNatural''}"
  shows "\<exists>N. \<forall>n\<ge>N.
           resolve_attribute_type_values n m \<noteq> None
           \<and> (\<exists>q. resolve_property n m (property_at m i) = Some (Inr q)
                \<and> typeValue q
                    = (if typeValue (property_at m i) \<in> {Some ''String'', Some ''str'', Some ''object''}
                          \<or> (\<exists>t. ptype (property_at m i) = Some t
                                   \<and> is_simple_type n m t = Some True)
                       then Some ''str'' else Some ''int'')
                \<and> (\<forall>m'. resolve_attribute_type_values n m = Some (Inr m')
                      \<longrightarrow> property_at m' i = q))"
proof -
  let ?p = "property_at m i"
  let ?p1 = "resolve_type_value m ?p"
  from is_simple_type_uniform [OF fin acyc]
  obtain N where N: "\<forall>n\<ge>N. \<forall>c. is_simple_type n m c \<noteq> None" by blast
  have "resolve_attribute_type_values n m \<noteq> None
        \<and> (\<exists>q. resolve_property n m ?p = Some (Inr q)
             \<and> typeValue q
                 = (if typeValue ?p \<in> {Some ''String'', Some ''str'', Some ''object''}
                       \<or> (\<exists>t. ptype ?p = Some t \<and> is_simple_type n m t = Some True)
                    then Some ''str'' else Some ''int'')
             \<and> (\<forall>m'. resolve_attribute_type_values n m = Some (Inr m')
                   \<longrightarrow> property_at m' i = q))" if n: "n \<ge> N" for n
  proof -
    from N n have tot: "\<forall>c. is_simple_type n m c \<noteq> None" by blast
    have run: "resolve_attribute_type_values n m \<noteq> None"
      unfolding resolve_attribute_type_values_def by (rule resolve_loop_total [OF tot]) simp
    have pt: "ptype ?p1 = ptype ?p" by (rule resolve_type_value_alias(1) [OF ali])
    have tv: "typeValue ?p1 = (if typeValue ?p \<in> {Some ''String'', Some ''str'', Some ''object''}
            then Some ''str'' else Some ''int'')"
      by (rule resolve_type_value_alias(2) [OF ali])
    have "\<exists>q. resolve_property n m ?p = Some (Inr q)
             \<and> typeValue q
                 = (if typeValue ?p \<in> {Some ''String'', Some ''str'', Some ''object''}
                       \<or> (\<exists>t. ptype ?p = Some t \<and> is_simple_type n m t = Some True)
                    then Some ''str'' else Some ''int'')"
    proof (cases "ptype ?p")
      case None
      with pt tv show ?thesis
        by (simp add: resolve_property_def resolve_simple_type_def bind_fuel_def)
    next
      case (Some t)
      from tot obtain b where b: "is_simple_type n m t = Some b" by auto
      show ?thesis
      proof (cases b)
        case True
        with Some b pt tv show ?thesis
          by (simp add: resolve_property_def resolve_simple_type_def bind_fuel_def)
      next
        case False
        with Some b pt tv show ?thesis
          by (simp add: resolve_property_def resolve_simple_type_def bind_fuel_def)
      qed
    qed
    then obtain q where q: "resolve_property n m ?p = Some (Inr q)"
      and qt: "typeValue q
                 = (if typeValue ?p \<in> {Some ''String'', Some ''str'', Some ''object''}
                       \<or> (\<exists>t. ptype ?p = Some t \<and> is_simple_type n m t = Some True)
                    then Some ''str'' else Some ''int'')" by blast
    have "property_at m' i = q" if "resolve_attribute_type_values n m = Some (Inr m')" for m'
      using resolve_loop_at [OF that [unfolded resolve_attribute_type_values_def] dist i] q by simp
    with run q qt show ?thesis by blast
  qed
  then show ?thesis by blast
qed

theorem alias_resolution_witness:
  "finite (general_rel order_model) \<and> acyclic (general_rel order_model)
   \<and> distinct (property_ids order_model) \<and> 1 \<in> set (property_ids order_model)
   \<and> typeValue (property_at order_model 1) = Some ''Integer''
   \<and> (\<exists>n q. resolve_property n order_model (property_at order_model 1) = Some (Inr q)
             \<and> typeValue q = Some ''int'')"
proof -
  have d: "distinct (property_ids order_model)" by (simp add: order_model_def)
  have i: "1 \<in> set (property_ids order_model)" by (simp add: order_model_def)
  have tv: "typeValue (property_at order_model 1) = Some ''Integer''"
    by (simp add: order_model_def order_properties_heap_def blank_property_def)
  have pt: "ptype (property_at order_model 1) = None"
    by (simp add: order_model_def order_properties_heap_def blank_property_def)
  from alias_resolution [OF finite_general_rel_order_model acyclic_general_rel_order_model d i]
  obtain N q where "resolve_property N order_model (property_at order_model 1) = Some (Inr q)"
    and "typeValue q = Some ''int''"
    using tv pt by auto
  then have "\<exists>n q. resolve_property n order_model (property_at order_model 1) = Some (Inr q)
             \<and> typeValue q = Some ''int''" by blast
  with finite_general_rel_order_model acyclic_general_rel_order_model d i tv show ?thesis
    by blast
qed

text \<open>
  The property \<^verbatim>\<open>total\<close> of the example has the raw type \<^verbatim>\<open>Integer\<close> and refers to
  the simple type \<^verbatim>\<open>Money\<close>: the resolver leaves it with the \<^verbatim>\<open>typeValue\<close> \<^verbatim>\<open>str\<close>.
\<close>

theorem alias_resolution_counterexample:
  "typeValue (property_at order_model 3) = Some ''Integer''
   \<and> (case resolve_attribute_type_values 2 order_model of
        Some (Inr m') \<Rightarrow> typeValue (property_at m' 3) = Some ''str''
      | _ \<Rightarrow> False)"
  by code_simp

lemma resolve_property_simple:
  assumes t: "ptype (resolve_type_value m p) = Some t"
    and simple: "is_simple_type n m t = Some True"
  shows "resolve_property n m p
         = Some (Inr ((resolve_type_value m p)\<lparr>typeValue := Some ''str'', ptype := None\<rparr>))"
  using assms by (simp add: resolve_property_def resolve_simple_type_def bind_fuel_def)

lemma attribute_line_not_relation_line:
  "attribute_line q d \<noteq> relation_line m2 q t r"
  by (simp add: attribute_line_def relation_line_def)

lemma default_value_str:
  "typeValue q = Some ''str'' \<Longrightarrow> \<exists>d. default_value q = Inr d"
  by (simp add: default_value_def split: option.splits)

lemma variable_line_primitive:
  assumes "typeValue q = Some ''str''" "ptype q = None" "default_value q = Inr d"
  shows "variable_line j m2 ov c q =
     (if is_extension_end q then Some (Inr [])
      else if overridden ov (Some (full_name m2 c (name q))) then
        Some (Inr [fmt (name q) @ '': '' @ override_type ov (Some (full_name m2 c (name q)))])
      else if isDerived q then Some (Inr [])
      else Some (Inr [attribute_line q d]))"
  using assms by (simp add: variable_line_def truthy_def)

text \<open>
  Claim C3. Let the type of a property, after the raw type has been resolved, be a class
  that is a simple type, by its own stereotype or through a generalization. With enough
  fuel the step of the resolver returns a property whose \<^verbatim>\<open>typeValue\<close> is \<^verbatim>\<open>str\<close> and
  which has no type reference, and a successful run stores that property. For this
  property \<^verbatim>\<open>variables\<close> yields nothing if it is an extension end or derived, the
  override if there is one, and otherwise the primitive attribute line, which is never
  a relation line.
\<close>

theorem simple_type_becomes_string:
  assumes dist: "distinct (property_ids m)" and i: "i \<in> set (property_ids m)"
    and t: "ptype (resolve_type_value m (property_at m i)) = Some t"
    and simple: "is_simple_type k m t = Some True"
  shows "\<forall>n\<ge>k. \<exists>q d.
           resolve_property n m (property_at m i) = Some (Inr q)
           \<and> typeValue q = Some ''str'' \<and> ptype q = None
           \<and> (\<forall>m'. resolve_attribute_type_values n m = Some (Inr m') \<longrightarrow> property_at m' i = q)
           \<and> default_value q = Inr d
           \<and> (\<forall>j m2 ov c. variable_line j m2 ov c q =
                 (if is_extension_end q then Some (Inr [])
                  else if overridden ov (Some (full_name m2 c (name q))) then
                    Some (Inr [fmt (name q) @ '': ''
                               @ override_type ov (Some (full_name m2 c (name q)))])
                  else if isDerived q then Some (Inr [])
                  else Some (Inr [attribute_line q d])))
           \<and> (\<forall>m2 t' r. attribute_line q d \<noteq> relation_line m2 q t' r)"
proof (intro allI impI)
  fix n assume n: "k \<le> n"
  let ?q = "(resolve_type_value m (property_at m i))\<lparr>typeValue := Some ''str'', ptype := None\<rparr>"
  have s: "is_simple_type n m t = Some True" using simple n by (rule is_simple_type_mono)
  have q: "resolve_property n m (property_at m i) = Some (Inr ?q)"
    using t s by (rule resolve_property_simple)
  have tv: "typeValue ?q = Some ''str''" and pt: "ptype ?q = None" by simp_all
  from default_value_str [OF tv] obtain d where d: "default_value ?q = Inr d" ..
  have run: "property_at m' i = ?q" if "resolve_attribute_type_values n m = Some (Inr m')" for m'
    using resolve_loop_at [OF that [unfolded resolve_attribute_type_values_def] dist i] q by simp
  have vl: "variable_line j m2 ov c ?q =
                 (if is_extension_end ?q then Some (Inr [])
                  else if overridden ov (Some (full_name m2 c (name ?q))) then
                    Some (Inr [fmt (name ?q) @ '': ''
                               @ override_type ov (Some (full_name m2 c (name ?q)))])
                  else if isDerived ?q then Some (Inr [])
                  else Some (Inr [attribute_line ?q d]))" for j m2 ov c
    using tv pt d by (rule variable_line_primitive)
  have nr: "attribute_line ?q d \<noteq> relation_line m2 ?q t' r" for m2 t' r
    by (rule attribute_line_not_relation_line)
  from q tv pt run d vl nr
  show "\<exists>q d.
           resolve_property n m (property_at m i) = Some (Inr q)
           \<and> typeValue q = Some ''str'' \<and> ptype q = None
           \<and> (\<forall>m'. resolve_attribute_type_values n m = Some (Inr m') \<longrightarrow> property_at m' i = q)
           \<and> default_value q = Inr d
           \<and> (\<forall>j m2 ov c. variable_line j m2 ov c q =
                 (if is_extension_end q then Some (Inr [])
                  else if overridden ov (Some (full_name m2 c (name q))) then
                    Some (Inr [fmt (name q) @ '': ''
                               @ override_type ov (Some (full_name m2 c (name q)))])
                  else if isDerived q then Some (Inr [])
                  else Some (Inr [attribute_line q d])))
           \<and> (\<forall>m2 t' r. attribute_line q d \<noteq> relation_line m2 q t' r)"
    by blast
qed

theorem simple_type_becomes_string_witness:
  "distinct (property_ids order_model) \<and> 0 \<in> set (property_ids order_model)
   \<and> ptype (resolve_type_value order_model (property_at order_model 0)) = Some 1
   \<and> is_simple_type 2 order_model 1 = Some True
   \<and> (\<exists>q. resolve_property 2 order_model (property_at order_model 0) = Some (Inr q)
           \<and> typeValue q = Some ''str'' \<and> ptype q = None
           \<and> variable_line 0 order_model None 2 q
               = Some (Inr [''amount: _attribute[str] = _attribute('' @ dq @ ''amount'' @ dq
                            @ '', str)'']))"
proof -
  let ?q0 = "blank_property\<lparr>name := Some ''amount'', typeValue := Some ''str'', owner := 2\<rparr>"
  have h1: "distinct (property_ids order_model)" by (simp add: order_model_def)
  have h2: "0 \<in> set (property_ids order_model)" by (simp add: order_model_def)
  have h3: "ptype (resolve_type_value order_model (property_at order_model 0)) = Some 1"
    by code_simp
  have h4: "is_simple_type 2 order_model 1 = Some True" by code_simp
  have ev: "resolve_property 2 order_model (property_at order_model 0) = Some (Inr ?q0)"
    by code_simp
  have plain: "\<not> is_extension_end ?q0" "\<not> isDerived ?q0" "default_value ?q0 = Inr []"
    "attribute_line ?q0 [] = ''amount: _attribute[str] = _attribute('' @ dq @ ''amount'' @ dq @ '', str)''"
    by (simp_all add: is_extension_end_def blank_property_def default_value_def attribute_line_def fmt_def)
  from simple_type_becomes_string [OF h1 h2 h3 h4]
  obtain q d where q: "resolve_property 2 order_model (property_at order_model 0) = Some (Inr q)"
    and tv: "typeValue q = Some ''str''" and pt: "ptype q = None"
    and d: "default_value q = Inr d"
    and vl: "\<And>j m2 ov c. variable_line j m2 ov c q =
                 (if is_extension_end q then Some (Inr [])
                  else if overridden ov (Some (full_name m2 c (name q))) then
                    Some (Inr [fmt (name q) @ '': ''
                               @ override_type ov (Some (full_name m2 c (name q)))])
                  else if isDerived q then Some (Inr [])
                  else Some (Inr [attribute_line q d]))"
    by blast
  from q ev have eq: "q = ?q0" by simp
  with d plain(3) have "d = []" by simp
  with vl [of 0 order_model None 2] eq plain
  have "variable_line 0 order_model None 2 q
        = Some (Inr [''amount: _attribute[str] = _attribute('' @ dq @ ''amount'' @ dq @ '', str)''])"
    by (simp add: overridden_def)
  with h1 h2 h3 h4 q tv pt show ?thesis by blast
qed

lemma general_rel_colour_model: "general_rel colour_model = general_rel order_model"
  by (simp add: general_rel_def colour_model_def)

text \<open>
  Claim C4, as amended. If after type resolution a property has no type reference and
  its \<^verbatim>\<open>typeValue\<close> is neither \<^verbatim>\<open>str\<close> nor \<^verbatim>\<open>int\<close> nor absent, then on a finite acyclic
  generalization graph, with enough fuel, its step raises the fatal error and the whole
  run ends with that error.
\<close>

theorem unresolved_type_is_fatal:
  assumes fin: "finite (general_rel m)" and acyc: "acyclic (general_rel m)"
    and dist: "distinct (property_ids m)" and i: "i \<in> set (property_ids m)"
    and q: "resolve_simple_type k m (resolve_type_value m (property_at m i)) = Some q"
    and pt: "ptype q = None"
    and tv: "typeValue q \<notin> {Some ''str'', Some ''int'', None}"
  shows "\<exists>N. \<forall>n\<ge>N.
           resolve_property n m (property_at m i) = Some (Inl Property_value_type_not_found)
           \<and> resolve_attribute_type_values n m = Some (Inl Property_value_type_not_found)"
proof -
  let ?p1 = "resolve_type_value m (property_at m i)"
  have p1: "ptype ?p1 = None \<and> q = ?p1"
  proof (cases "ptype ?p1")
    case None
    with q show ?thesis by (simp add: resolve_simple_type_def)
  next
    case (Some t)
    with q pt tv show ?thesis
      by (auto simp: resolve_simple_type_def split: option.splits bool.splits)
  qed
  have step: "resolve_property n m (property_at m i) = Some (Inl Property_value_type_not_found)"
    for n
    using p1 pt tv by (simp add: resolve_property_def resolve_simple_type_def bind_fuel_def)
  from is_simple_type_uniform [OF fin acyc]
  obtain N where N: "\<forall>n\<ge>N. \<forall>c. is_simple_type n m c \<noteq> None" by blast
  have "resolve_attribute_type_values n m = Some (Inl Property_value_type_not_found)"
    if n: "n \<ge> N" for n
  proof -
    from N n have tot: "\<forall>c. is_simple_type n m c \<noteq> None" by blast
    have "resolve_loop n m (property_ids m) \<noteq> None"
      by (rule resolve_loop_total [OF tot]) simp
    then show ?thesis
      unfolding resolve_attribute_type_values_def
      using dist i step by (rule resolve_loop_aborts)
  qed
  with step show ?thesis by blast
qed

theorem unresolved_type_is_fatal_witness:
  "finite (general_rel colour_model) \<and> acyclic (general_rel colour_model)
   \<and> distinct (property_ids colour_model) \<and> 5 \<in> set (property_ids colour_model)
   \<and> resolve_simple_type 0 colour_model
        (resolve_type_value colour_model (property_at colour_model 5))
       = Some (property_at colour_model 5)
   \<and> ptype (property_at colour_model 5) = None
   \<and> typeValue (property_at colour_model 5) = Some ''Colour''
   \<and> (\<exists>n. resolve_attribute_type_values n colour_model
             = Some (Inl Property_value_type_not_found))"
proof -
  have h1: "finite (general_rel colour_model)"
    by (simp add: general_rel_colour_model finite_general_rel_order_model)
  have h2: "acyclic (general_rel colour_model)"
    by (simp only: general_rel_colour_model acyclic_general_rel_order_model)
  have h3: "distinct (property_ids colour_model)" by (simp add: colour_model_def)
  have h4: "5 \<in> set (property_ids colour_model)" by (simp add: colour_model_def)
  have h5: "resolve_simple_type 0 colour_model
        (resolve_type_value colour_model (property_at colour_model 5))
       = Some (property_at colour_model 5)" by code_simp
  have h6: "ptype (property_at colour_model 5) = None" by code_simp
  have h7: "typeValue (property_at colour_model 5) = Some ''Colour''" by code_simp
  have h8: "typeValue (property_at colour_model 5) \<notin> {Some ''str'', Some ''int'', None}"
    by (simp add: h7)
  from unresolved_type_is_fatal [OF h1 h2 h3 h4 h5 h6 h8]
  have "\<exists>n. resolve_attribute_type_values n colour_model
             = Some (Inl Property_value_type_not_found)" by blast
  with h1 h2 h3 h4 h5 h6 h7 show ?thesis by blast
qed

text \<open>
  The derived property \<^verbatim>\<open>note\<close> of the example has no type reference and no
  \<^verbatim>\<open>typeValue\<close>: the resolver accepts it, and the generator then runs to its end.
\<close>

theorem unresolved_type_is_fatal_counterexample:
  "ptype (property_at order_model 4) = None
   \<and> typeValue (property_at order_model 4) = None
   \<and> resolve_property 0 order_model (property_at order_model 4)
       = Some (Inr (property_at order_model 4))
   \<and> (case resolve_attribute_type_values 2 order_model of
        Some (Inr m') \<Rightarrow>
          ptype (property_at m' 4) = None \<and> typeValue (property_at m' 4) = None
          \<and> (case coder 3 m' [] None of Some (Inr ls) \<Rightarrow> True | _ \<Rightarrow> False)
      | _ \<Rightarrow> False)"
  by code_simp

subsection \<open>The class orderer\<close>

lemma bases_first_Nil: "bases_first m []"
  by (simp add: bases_first_def)

lemma bases_first_snoc:
  assumes "bases_first m out" "c \<notin> set out" "set (bases m c) \<subseteq> set out"
  shows "bases_first m (out @ [c])"
  unfolding bases_first_def
proof (intro conjI allI impI)
  show "distinct (out @ [c])" using assms by (simp add: bases_first_def)
next
  fix i assume "i < length (out @ [c])"
  then consider "i < length out" | "i = length out" by fastforce
  then show "set (bases m ((out @ [c]) ! i)) \<subseteq> set (take i (out @ [c]))"
  proof cases
    case 1
    with assms(1) show ?thesis by (simp add: bases_first_def nth_append)
  next
    case 2
    with assms(3) show ?thesis by simp
  qed
qed

lemma order_all_invariant:
  assumes step: "\<And>c out s'. bases_first m out \<Longrightarrow> order n m c (out, set out) = Some s'
            \<Longrightarrow> \<exists>ys. s' = (out @ ys, set (out @ ys)) \<and> bases_first m (out @ ys)
                   \<and> c \<in> set (out @ ys) \<and> set ys \<subseteq> {x. (x, c) \<in> (base_rel m)\<^sup>*}"
  shows "bases_first m out \<Longrightarrow> order_all n m cs (out, set out) = Some s'
         \<Longrightarrow> \<exists>ys. s' = (out @ ys, set (out @ ys)) \<and> bases_first m (out @ ys)
                \<and> set cs \<subseteq> set (out @ ys)
                \<and> set ys \<subseteq> {x. \<exists>c\<in>set cs. (x, c) \<in> (base_rel m)\<^sup>*}"
proof (induction cs arbitrary: out)
  case Nil
  then show ?case by simp
next
  case (Cons c cs)
  from Cons.prems(2) obtain s1 where s1: "order n m c (out, set out) = Some s1"
    and rest: "order_all n m cs s1 = Some s'"
    by (auto split: option.splits)
  from step [OF Cons.prems(1) s1] obtain ys1 where
    e1: "s1 = (out @ ys1, set (out @ ys1))" and g1: "bases_first m (out @ ys1)"
    and c1: "c \<in> set (out @ ys1)" and r1: "set ys1 \<subseteq> {x. (x, c) \<in> (base_rel m)\<^sup>*}"
    by blast
  from Cons.IH [OF g1 rest [unfolded e1]] obtain ys2 where
    e2: "s' = ((out @ ys1) @ ys2, set ((out @ ys1) @ ys2))"
    and g2: "bases_first m ((out @ ys1) @ ys2)"
    and c2: "set cs \<subseteq> set ((out @ ys1) @ ys2)"
    and r2: "set ys2 \<subseteq> {x. \<exists>c\<in>set cs. (x, c) \<in> (base_rel m)\<^sup>*}"
    by blast
  have "s' = (out @ (ys1 @ ys2), set (out @ (ys1 @ ys2)))" using e2 by simp
  moreover have "bases_first m (out @ (ys1 @ ys2))" using g2 by simp
  moreover have "set (c # cs) \<subseteq> set (out @ (ys1 @ ys2))" using c1 c2 by auto
  moreover have "set (ys1 @ ys2) \<subseteq> {x. \<exists>c'\<in>set (c # cs). (x, c') \<in> (base_rel m)\<^sup>*}"
    using r1 r2 by auto
  ultimately show ?case by blast
qed

lemma order_invariant:
  assumes acyc: "acyclic (base_rel m)"
  shows "bases_first m out \<Longrightarrow> order n m c (out, set out) = Some s'
         \<Longrightarrow> \<exists>ys. s' = (out @ ys, set (out @ ys)) \<and> bases_first m (out @ ys)
                \<and> c \<in> set (out @ ys) \<and> set ys \<subseteq> {x. (x, c) \<in> (base_rel m)\<^sup>*}"
proof (induction n arbitrary: c out s')
  case 0
  then show ?case by simp
next
  case (Suc n)
  show ?case
  proof (cases "c \<in> set out")
    case True
    with Suc.prems(2) have "s' = (out @ [], set (out @ []))" by simp
    with True Suc.prems(1) show ?thesis by fastforce
  next
    case False
    with Suc.prems(2) obtain s1 where s1: "order_all n m (bases m c) (out, set out) = Some s1"
      and s': "s' = (fst s1 @ [c], insert c (snd s1))"
      by (auto split: option.splits)
    from order_all_invariant [OF Suc.IH Suc.prems(1) s1] obtain ys where
      e: "s1 = (out @ ys, set (out @ ys))" and g: "bases_first m (out @ ys)"
      and b: "set (bases m c) \<subseteq> set (out @ ys)"
      and r: "set ys \<subseteq> {x. \<exists>b\<in>set (bases m c). (x, b) \<in> (base_rel m)\<^sup>*}"
      by blast
    have plus: "(x, c) \<in> (base_rel m)\<^sup>+" if "x \<in> set ys" for x
    proof -
      from r that obtain b where "b \<in> set (bases m c)" and xb: "(x, b) \<in> (base_rel m)\<^sup>*" by auto
      then have "(b, c) \<in> base_rel m" by (simp add: base_rel_def)
      with xb show ?thesis by (rule rtrancl_into_trancl1)
    qed
    have "c \<notin> set ys" using plus acyc by (auto simp: acyclic_def)
    with False have fresh: "c \<notin> set (out @ ys)" by simp
    have g': "bases_first m ((out @ ys) @ [c])" using g fresh b by (rule bases_first_snoc)
    have "s' = (out @ (ys @ [c]), set (out @ (ys @ [c])))" using s' e by simp
    moreover have "bases_first m (out @ (ys @ [c]))" using g' by simp
    moreover have "c \<in> set (out @ (ys @ [c]))" by simp
    moreover have "set (ys @ [c]) \<subseteq> {x. (x, c) \<in> (base_rel m)\<^sup>*}"
      using plus by (auto dest: trancl_into_rtrancl)
    ultimately show ?thesis by blast
  qed
qed

lemma bases_first_trancl:
  assumes g: "bases_first m out" and bc: "(b, c) \<in> (base_rel m)\<^sup>+"
  shows "\<forall>j<length out. out ! j = c \<longrightarrow> (\<exists>i<j. out ! i = b)"
  using bc
proof (induction rule: trancl_induct)
  case (base y)
  show ?case
  proof (intro allI impI)
    fix j assume j: "j < length out" and y: "out ! j = y"
    from base have "b \<in> set (bases m y)" by (simp add: base_rel_def)
    with g j y have "b \<in> set (take j out)" by (auto simp: bases_first_def)
    then obtain i where "i < length (take j out)" "take j out ! i = b"
      by (auto simp: in_set_conv_nth)
    then show "\<exists>i<j. out ! i = b" by auto
  qed
next
  case (step y z)
  show ?case
  proof (intro allI impI)
    fix j assume j: "j < length out" and z: "out ! j = z"
    from step.hyps(2) have "y \<in> set (bases m z)" by (simp add: base_rel_def)
    with g j z have "y \<in> set (take j out)" by (auto simp: bases_first_def)
    then obtain k where k: "k < length (take j out)" "take j out ! k = y"
      by (auto simp: in_set_conv_nth)
    then have kj: "k < j" and kl: "k < length out" and ky: "out ! k = y" by auto
    from step.IH kl ky obtain i where "i < k" "out ! i = b" by blast
    with kj show "\<exists>i<j. out ! i = b" by (auto intro: less_trans)
  qed
qed

lemma order_all_mono:
  assumes step: "\<And>c s s'. order n m c s = Some s' \<Longrightarrow> order k m c s = Some s'"
  shows "order_all n m cs s = Some s' \<Longrightarrow> order_all k m cs s = Some s'"
proof (induction cs arbitrary: s)
  case Nil
  then show ?case by simp
next
  case (Cons c cs)
  from Cons.prems obtain s1 where "order n m c s = Some s1" "order_all n m cs s1 = Some s'"
    by (auto split: option.splits)
  with step Cons.IH show ?case by simp
qed

lemma order_Suc: "order n m c s = Some s' \<Longrightarrow> order (Suc n) m c s = Some s'"
proof (induction n arbitrary: c s s')
  case 0
  then show ?case by simp
next
  case (Suc n)
  show ?case
  proof (cases "c \<in> snd s")
    case True
    with Suc.prems show ?thesis by simp
  next
    case False
    with Suc.prems obtain s1 where s1: "order_all n m (bases m c) s = Some s1"
      and s': "s' = (fst s1 @ [c], insert c (snd s1))"
      by (auto split: option.splits)
    have "order_all (Suc n) m (bases m c) s = Some s1"
      using s1 by (rule order_all_mono [rotated]) (rule Suc.IH)
    with False s' show ?thesis by simp
  qed
qed

lemma order_mono: "order n m c s = Some s' \<Longrightarrow> n \<le> k \<Longrightarrow> order k m c s = Some s'"
  by (induction k) (auto simp: le_Suc_eq dest: order_Suc simp del: order.simps)

lemma order_all_defined:
  "(\<And>c s. c \<in> set cs \<Longrightarrow> order n m c s \<noteq> None) \<Longrightarrow> order_all n m cs s \<noteq> None"
proof (induction cs arbitrary: s)
  case Nil
  then show ?case by simp
next
  case (Cons c cs)
  have "order n m c s \<noteq> None" by (rule Cons.prems) simp
  then obtain s1 where "order n m c s = Some s1" by auto
  moreover have "order_all n m cs s1 \<noteq> None" by (rule Cons.IH) (simp add: Cons.prems)
  ultimately show ?case by simp
qed

lemma order_total:
  assumes "wf (base_rel m)"
  shows "\<exists>N. \<forall>n\<ge>N. \<forall>s. order n m c s \<noteq> None"
  using assms
proof (induction c rule: wf_induct_rule)
  case (less c)
  have "\<And>b. b \<in> set (bases m c) \<Longrightarrow> \<exists>N. \<forall>n\<ge>N. \<forall>s. order n m b s \<noteq> None"
    using less by (simp add: base_rel_def)
  then obtain N where N: "\<forall>n\<ge>N. \<forall>b\<in>set (bases m c). \<forall>s. order n m b s \<noteq> None"
    using fuel_for_all [of "bases m c" "\<lambda>n b. \<forall>s. order n m b s \<noteq> None"] by blast
  have "order n m c s \<noteq> None" if "n \<ge> Suc N" for n s
  proof -
    from that obtain j where n: "n = Suc j" and j: "j \<ge> N" by (cases n) auto
    have "order_all j m (bases m c) s \<noteq> None"
      by (rule order_all_defined) (use N j in blast)
    then show ?thesis by (auto simp: n)
  qed
  then show ?case by blast
qed

lemma order_classes_total:
  assumes fin: "finite (base_rel m)" and acyc: "acyclic (base_rel m)"
  shows "\<exists>N. \<forall>n\<ge>N. order_classes n m cs \<noteq> None"
proof -
  have wf: "wf (base_rel m)" using fin acyc by (rule finite_acyclic_wf)
  from fuel_for_all [of cs "\<lambda>n c. \<forall>s. order n m c s \<noteq> None"] order_total [OF wf]
  obtain N where N: "\<forall>n\<ge>N. \<forall>c\<in>set cs. \<forall>s. order n m c s \<noteq> None" by blast
  have "order_classes n m cs \<noteq> None" if "n \<ge> N" for n
  proof -
    have "order_all n m cs ([], {}) \<noteq> None"
      by (rule order_all_defined) (use N that in blast)
    then show ?thesis by (simp add: order_classes_def)
  qed
  then show ?thesis by blast
qed

lemma order_classes_mono:
  "order_classes n m cs = Some out \<Longrightarrow> n \<le> k \<Longrightarrow> order_classes k m cs = Some out"
proof -
  assume a: "order_classes n m cs = Some out" and nk: "n \<le> k"
  from a obtain s where s: "order_all n m cs ([], {}) = Some s" and o: "out = fst s"
    by (auto simp: order_classes_def)
  have "order_all k m cs ([], {}) = Some s"
    using s by (rule order_all_mono [rotated]) (rule order_mono [OF _ nk])
  with o show ?thesis by (simp add: order_classes_def)
qed

lemma base_rel_shape_model:
  "base_rel shape_model = {(0, 1), (1, 2), (1, 3), (2, 4), (3, 4), (1, 5)}"
  by (auto simp: base_rel_def bases_def metaclass_of_def shape_model_def shape_classes_heap_def
      shape_properties_heap_def blank_class_def blank_property_def split: if_splits)

lemma finite_base_rel_shape_model: "finite (base_rel shape_model)"
  by (simp add: base_rel_shape_model)

lemma acyclic_base_rel_shape_model: "acyclic (base_rel shape_model)"
  unfolding base_rel_shape_model
  by (rule acyclicI_order [where f = "\<lambda>x. if x = (0::nat) then (5::nat) else if x = 1 then 4
        else if x = 2 \<or> x = 3 then 3 else 2"]) auto

text \<open>
  Claim C10. On a finite model whose graph of bases, the generalizations together with
  the metaclass edges of the attributes named \<^verbatim>\<open>baseClass\<close>, is acyclic,
  \<^verbatim>\<open>order_classes\<close> returns: from some recursion depth on, it yields one and the same
  finite list.
\<close>

theorem order_classes_terminates:
  assumes fin: "finite (base_rel m)" and acyc: "acyclic (base_rel m)"
  shows "\<exists>N out. \<forall>n\<ge>N. order_classes n m cs = Some out"
proof -
  from order_classes_total [OF fin acyc]
  obtain N where N: "\<forall>n\<ge>N. order_classes n m cs \<noteq> None" by blast
  then obtain out where out: "order_classes N m cs = Some out" by auto
  have "\<forall>n\<ge>N. order_classes n m cs = Some out"
    using out by (auto intro: order_classes_mono)
  then show ?thesis by blast
qed

theorem order_classes_terminates_witness:
  "finite (base_rel shape_model) \<and> acyclic (base_rel shape_model)
   \<and> (\<exists>N. \<forall>n\<ge>N. order_classes n shape_model [4, 5, 2, 0, 3, 1] = Some [0, 1, 2, 3, 4, 5])"
proof -
  have ev: "order_classes 4 shape_model [4, 5, 2, 0, 3, 1] = Some [0, 1, 2, 3, 4, 5]"
    by code_simp
  from order_classes_terminates [OF finite_base_rel_shape_model acyclic_base_rel_shape_model]
  obtain N out where N: "\<forall>n\<ge>N. order_classes n shape_model [4, 5, 2, 0, 3, 1] = Some out"
    by blast
  have "order_classes (max N 4) shape_model [4, 5, 2, 0, 3, 1] = Some [0, 1, 2, 3, 4, 5]"
    using ev by (rule order_classes_mono) simp
  with N have "out = [0, 1, 2, 3, 4, 5]" by (metis max.cobounded1 option.inject)
  with N finite_base_rel_shape_model acyclic_base_rel_shape_model show ?thesis by blast
qed

text \<open>
  Claim C1. On a finite acyclic graph of bases \<^verbatim>\<open>order_classes\<close> returns, and in the
  list it yields no class occurs twice, every class of the input occurs, and every
  transitive base of a class of the list occurs at a strictly earlier position than the
  class, whatever the number of paths that lead to it.
\<close>

theorem order_classes_topological:
  assumes fin: "finite (base_rel m)" and acyc: "acyclic (base_rel m)"
  shows "(\<exists>N. \<forall>n\<ge>N. order_classes n m cs \<noteq> None)
         \<and> (\<forall>n out. order_classes n m cs = Some out \<longrightarrow>
               distinct out \<and> set cs \<subseteq> set out
               \<and> (\<forall>C B. C \<in> set out \<longrightarrow> (B, C) \<in> (base_rel m)\<^sup>+ \<longrightarrow>
                     (\<exists>i j. i < j \<and> j < length out \<and> out ! i = B \<and> out ! j = C)))"
proof (intro conjI allI impI)
  show "\<exists>N. \<forall>n\<ge>N. order_classes n m cs \<noteq> None"
    using fin acyc by (rule order_classes_total)
next
  fix n out
  assume run: "order_classes n m cs = Some out"
  then obtain s where s: "order_all n m cs ([], set []) = Some s" and o: "out = fst s"
    by (auto simp: order_classes_def)
  have "\<exists>ys. s = ([] @ ys, set ([] @ ys)) \<and> bases_first m ([] @ ys)
          \<and> set cs \<subseteq> set ([] @ ys)
          \<and> set ys \<subseteq> {x. \<exists>c\<in>set cs. (x, c) \<in> (base_rel m)\<^sup>*}"
  proof (rule order_all_invariant [OF _ bases_first_Nil s])
    fix c out s'
    assume "bases_first m out" "order n m c (out, set out) = Some s'"
    then show "\<exists>ys. s' = (out @ ys, set (out @ ys)) \<and> bases_first m (out @ ys)
                \<and> c \<in> set (out @ ys) \<and> set ys \<subseteq> {x. (x, c) \<in> (base_rel m)\<^sup>*}"
      by (rule order_invariant [OF acyc])
  qed
  then obtain ys where e: "s = ([] @ ys, set ([] @ ys))" and g: "bases_first m ([] @ ys)"
    and c: "set cs \<subseteq> set ([] @ ys)" by blast
  from e o have oy: "out = ys" by simp
  with g have good: "bases_first m out" by simp
  show "distinct out" using good by (simp add: bases_first_def)
  show "set cs \<subseteq> set out" using c oy by simp
  fix C B
  assume C: "C \<in> set out" and BC: "(B, C) \<in> (base_rel m)\<^sup>+"
  from C obtain j where j: "j < length out" "out ! j = C" by (auto simp: in_set_conv_nth)
  with bases_first_trancl [OF good BC] obtain i where "i < j" "out ! i = B" by blast
  with j show "\<exists>i j. i < j \<and> j < length out \<and> out ! i = B \<and> out ! j = C" by blast
qed

theorem order_classes_topological_witness:
  "finite (base_rel shape_model) \<and> acyclic (base_rel shape_model)
   \<and> order_classes 4 shape_model [4, 5, 2, 0, 3, 1] = Some [0, 1, 2, 3, 4, 5]
   \<and> distinct [0, 1, 2, 3, 4, 5 :: nat]
   \<and> (1, 4) \<in> (base_rel shape_model)\<^sup>+
   \<and> (\<exists>i j. i < j \<and> j < length [0, 1, 2, 3, 4, 5 :: nat]
            \<and> [0, 1, 2, 3, 4, 5 :: nat] ! i = 1 \<and> [0, 1, 2, 3, 4, 5 :: nat] ! j = 4)"
proof -
  have ev: "order_classes 4 shape_model [4, 5, 2, 0, 3, 1] = Some [0, 1, 2, 3, 4, 5]"
    by code_simp
  have "(1, 2) \<in> base_rel shape_model" "(2, 4) \<in> base_rel shape_model"
    by (simp_all add: base_rel_shape_model)
  then have path: "(1, 4) \<in> (base_rel shape_model)\<^sup>+" by (rule trancl_into_trancl2 [OF _ r_into_trancl])
  have four: "4 \<in> set [0, 1, 2, 3, 4, 5 :: nat]" by simp
  from order_classes_topological [OF finite_base_rel_shape_model acyclic_base_rel_shape_model,
      of "[4, 5, 2, 0, 3, 1]"] ev
  have props: "distinct [0, 1, 2, 3, 4, 5 :: nat]"
    "\<And>C B. C \<in> set [0, 1, 2, 3, 4, 5 :: nat] \<Longrightarrow> (B, C) \<in> (base_rel shape_model)\<^sup>+ \<Longrightarrow>
       (\<exists>i j. i < j \<and> j < length [0, 1, 2, 3, 4, 5 :: nat]
            \<and> [0, 1, 2, 3, 4, 5 :: nat] ! i = B \<and> [0, 1, 2, 3, 4, 5 :: nat] ! j = C)"
    by blast+
  from props(2) [OF four path] props(1) ev path
    finite_base_rel_shape_model acyclic_base_rel_shape_model
  show ?thesis by blast
qed

subsection \<open>The declaration of a class\<close>

text \<open>
  Claim C6, as amended. For a class named \<^verbatim>\<open>Foo\<close> with no generalization, no
  operation and exactly one owned attribute, named \<^verbatim>\<open>name\<close>, of the primitive
  string type, with no default value, neither derived nor an extension end, and with no
  override and no supermodel class for it, the generator emits the header
  \<^verbatim>\<open>class Foo():\<close>, with an empty pair of parentheses, followed by the property
  line that declares \<^verbatim>\<open>name\<close> as a string attribute without a default clause.
\<close>

theorem foo_class_block:
  assumes nm: "class_name (class_at m c) = Some ''Foo''"
    and gen: "generalization (class_at m c) = []"
    and attrs: "ownedAttribute (class_at m c) = [i]"
    and ops: "ownedOperation (class_at m c) = []"
    and a_name: "name (property_at m i) = Some ''name''"
    and a_type: "typeValue (property_at m i) = Some ''str''"
    and a_default: "defaultValue (property_at m i) = None"
    and a_plain: "\<not> is_extension_end (property_at m i)" "\<not> isDerived (property_at m i)"
    and no_override: "\<not> overridden ov (Some ''Foo'')" "\<not> overridden ov (Some ''Foo.name'')"
    and no_super: "in_super_model (Some ''Foo'') sms = None"
  shows "class_declaration m c = Inr ''class Foo():''
         \<and> variables n m ov c
             = Some (Inr [''name: _attribute[str] = _attribute('' @ dq @ ''name'' @ dq @ '', str)''])
         \<and> class_block n m sms ov c
             = Some (Inr [''class Foo():'',
                          ''    name: _attribute[str] = _attribute('' @ dq @ ''name'' @ dq @ '', str)'',
                          [], []])"
proof -
  have b: "bases m c = []"
    using gen attrs a_name by (simp add: bases_def metaclass_of_def split: option.splits)
  have d: "class_declaration m c = Inr ''class Foo():''"
    using nm b by (simp add: class_declaration_def fmt_def)
  have fn: "full_name m c (Some ''name'') = ''Foo.name''"
    using nm by (simp add: full_name_def fmt_def)
  have dv: "default_value (property_at m i) = Inr []"
    using a_default by (simp add: default_value_def)
  have vl: "variable_line n m ov c (property_at m i)
      = Some (Inr [''name: _attribute[str] = _attribute('' @ dq @ ''name'' @ dq @ '', str)''])"
    using a_plain no_override(2) a_type a_name dv
    by (simp add: variable_line_def fn truthy_def attribute_line_def fmt_def)
  have v: "variables n m ov c
      = Some (Inr [''name: _attribute[str] = _attribute('' @ dq @ ''name'' @ dq @ '', str)''])"
    using vl attrs ops by (simp add: variables_def bind_result_def)
  have "class_block n m sms ov c
             = Some (Inr [''class Foo():'',
                          ''    name: _attribute[str] = _attribute('' @ dq @ ''name'' @ dq @ '', str)'',
                          [], []])"
    using nm no_override(1) no_super d v by (simp add: class_block_def bind_result_def)
  with d v show ?thesis by blast
qed

theorem foo_class_block_witness:
  "class_name (class_at foo_model 0) = Some ''Foo''
   \<and> generalization (class_at foo_model 0) = []
   \<and> ownedAttribute (class_at foo_model 0) = [0]
   \<and> name (property_at foo_model 0) = Some ''name''
   \<and> typeValue (property_at foo_model 0) = Some ''str''
   \<and> defaultValue (property_at foo_model 0) = None
   \<and> class_block 0 foo_model [] None 0
       = Some (Inr [''class Foo():'',
                    ''    name: _attribute[str] = _attribute('' @ dq @ ''name'' @ dq @ '', str)'',
                    [], []])"
proof -
  have h: "class_name (class_at foo_model 0) = Some ''Foo''"
    "generalization (class_at foo_model 0) = []"
    "ownedAttribute (class_at foo_model 0) = [0]"
    "ownedOperation (class_at foo_model 0) = []"
    "name (property_at foo_model 0) = Some ''name''"
    "typeValue (property_at foo_model 0) = Some ''str''"
    "defaultValue (property_at foo_model 0) = None"
    "\<not> is_extension_end (property_at foo_model 0)"
    "\<not> isDerived (property_at foo_model 0)"
    by (simp_all add: foo_model_def blank_class_def blank_property_def is_extension_end_def)
  have o: "\<not> overridden None (Some ''Foo'')" "\<not> overridden None (Some ''Foo.name'')"
    by (simp_all add: overridden_def)
  have s: "in_super_model (Some ''Foo'') [] = None" by simp
  from foo_class_block [OF h o s, of 0] h show ?thesis by blast
qed

text \<open>
  The header that the generator prints for the example is \<^verbatim>\<open>class Foo():\<close>; the
  line \<^verbatim>\<open>class Foo:\<close> is not in its output.
\<close>

theorem foo_class_block_counterexample:
  "class_declaration foo_model 0 = Inr ''class Foo():''
   \<and> class_declaration foo_model 0 \<noteq> Inr ''class Foo:''
   \<and> (case coder 1 foo_model [] None of
        Some (Inr ls) \<Rightarrow> ''class Foo():'' \<in> set ls \<and> ''class Foo:'' \<notin> set ls
      | _ \<Rightarrow> False)"
  by code_simp

subsection \<open>The association emitter\<close>

text \<open>
  The list that \<^verbatim>\<open>associations\<close> returns: the lines yielded at once, in the order of
  the attributes, and then the lines of \<^verbatim>\<open>redefinitions\<close>.
\<close>

lemma associations_loop_split:
  "associations_loop n m ov c ids y r = Some (Inr ls)
   \<Longrightarrow> \<exists>es. list_all2 (\<lambda>i e. association_step n m ov c (property_at m i) = Some (Inr e)) ids es
          \<and> ls = y @ [l. Yield l \<leftarrow> es] @ r @ [l. Defer l \<leftarrow> es]"
proof (induction ids arbitrary: y r)
  case Nil
  then show ?case by simp
next
  case (Cons i ids)
  from Cons.prems obtain e where e: "association_step n m ov c (property_at m i) = Some (Inr e)"
    by (auto split: option.splits sum.splits)
  show ?case
  proof (cases e)
    case Skip
    with e Cons.prems have "associations_loop n m ov c ids y r = Some (Inr ls)" by simp
    from Cons.IH [OF this] obtain es where
      "list_all2 (\<lambda>i e. association_step n m ov c (property_at m i) = Some (Inr e)) ids es"
      "ls = y @ [l. Yield l \<leftarrow> es] @ r @ [l. Defer l \<leftarrow> es]" by blast
    with e Skip have
      "list_all2 (\<lambda>i e. association_step n m ov c (property_at m i) = Some (Inr e)) (i # ids) (Skip # es)
       \<and> ls = y @ [l. Yield l \<leftarrow> Skip # es] @ r @ [l. Defer l \<leftarrow> Skip # es]" by simp
    then show ?thesis by blast
  next
    case (Yield l)
    with e Cons.prems have "associations_loop n m ov c ids (y @ [l]) r = Some (Inr ls)" by simp
    from Cons.IH [OF this] obtain es where
      "list_all2 (\<lambda>i e. association_step n m ov c (property_at m i) = Some (Inr e)) ids es"
      "ls = (y @ [l]) @ [l. Yield l \<leftarrow> es] @ r @ [l. Defer l \<leftarrow> es]" by blast
    with e Yield have
      "list_all2 (\<lambda>i e. association_step n m ov c (property_at m i) = Some (Inr e)) (i # ids) (Yield l # es)
       \<and> ls = y @ [l. Yield l \<leftarrow> Yield l # es] @ r @ [l. Defer l \<leftarrow> Yield l # es]" by simp
    then show ?thesis by blast
  next
    case (Defer l)
    with e Cons.prems have "associations_loop n m ov c ids y (r @ [l]) = Some (Inr ls)" by simp
    from Cons.IH [OF this] obtain es where
      "list_all2 (\<lambda>i e. association_step n m ov c (property_at m i) = Some (Inr e)) ids es"
      "ls = y @ [l. Yield l \<leftarrow> es] @ (r @ [l]) @ [l. Defer l \<leftarrow> es]" by blast
    with e Defer have
      "list_all2 (\<lambda>i e. association_step n m ov c (property_at m i) = Some (Inr e)) (i # ids) (Defer l # es)
       \<and> ls = y @ [l. Yield l \<leftarrow> Defer l # es] @ r @ [l. Defer l \<leftarrow> Defer l # es]" by simp
    then show ?thesis by blast
  qed
qed

text \<open>
  Claim C7, as amended. In the association pass an attribute with no override is
  skipped when it has no type reference (it is untyped or primitive), or its type is a
  simple type or an enumeration, or it is an extension end; the override of an
  attribute is checked first and is yielded even for such an attribute. The lines of a
  class are the lines yielded at once, overrides, derived unions and associations, in
  the order of the attributes, followed by all redefinition lines of the class.
\<close>

theorem associations_defer_redefinitions:
  assumes run: "associations n m ov c = Some (Inr ls)"
  shows "(\<exists>es. list_all2 (\<lambda>i e. association_step n m ov c (property_at m i) = Some (Inr e))
                 (ownedAttribute (class_at m c)) es
              \<and> ls = [l. Yield l \<leftarrow> es] @ [l. Defer l \<leftarrow> es])
         \<and> (\<forall>a. \<not> overridden ov (Some (full_name m c (name a)))
                \<longrightarrow> untyped_or_excluded n m a = Some True
                \<longrightarrow> association_step n m ov c a = Some (Inr Skip))
         \<and> (\<forall>a. untyped_or_excluded n m a
                  = (case ptype a of
                       None \<Rightarrow> Some True
                     | Some t \<Rightarrow>
                         (case is_simple_type n m t of
                            None \<Rightarrow> None
                          | Some s \<Rightarrow> Some (s \<or> is_enumeration m (Some t) \<or> is_extension_end a))))
         \<and> (\<forall>a l. association_step n m ov c a = Some (Inr (Defer l))
                \<longrightarrow> l = redefine_line m c a \<and> truthy (redefines a)
                    \<and> \<not> overridden ov (Some (full_name m c (name a))))
         \<and> (\<forall>a l. association_step n m ov c a = Some (Inr (Yield l))
                \<longrightarrow> l \<in> {override_text ov (Some (full_name m c (name a))),
                          derivedunion_line m c a, association_line m c a}
                    \<and> (overridden ov (Some (full_name m c (name a))) \<or> \<not> truthy (redefines a)))"
proof (intro conjI allI impI)
  from associations_loop_split [OF run [unfolded associations_def]]
  show "\<exists>es. list_all2 (\<lambda>i e. association_step n m ov c (property_at m i) = Some (Inr e))
                 (ownedAttribute (class_at m c)) es
              \<and> ls = [l. Yield l \<leftarrow> es] @ [l. Defer l \<leftarrow> es]" by simp
next
  fix a
  assume "\<not> overridden ov (Some (full_name m c (name a)))" "untyped_or_excluded n m a = Some True"
  then show "association_step n m ov c a = Some (Inr Skip)"
    by (simp add: association_step_def bind_fuel_def)
next
  fix a
  show "untyped_or_excluded n m a
                  = (case ptype a of
                       None \<Rightarrow> Some True
                     | Some t \<Rightarrow>
                         (case is_simple_type n m t of
                            None \<Rightarrow> None
                          | Some s \<Rightarrow> Some (s \<or> is_enumeration m (Some t) \<or> is_extension_end a)))"
    by (simp add: untyped_or_excluded_def split: option.splits bool.splits)
next
  fix a l
  assume d: "association_step n m ov c a = Some (Inr (Defer l))"
  then show "l = redefine_line m c a" "truthy (redefines a)"
    "\<not> overridden ov (Some (full_name m c (name a)))"
    by (auto simp: association_step_def bind_fuel_def split: if_splits option.splits)
next
  fix a l
  assume y: "association_step n m ov c a = Some (Inr (Yield l))"
  then show "l \<in> {override_text ov (Some (full_name m c (name a))),
                          derivedunion_line m c a, association_line m c a}"
    by (auto simp: association_step_def bind_fuel_def split: if_splits option.splits)
  from y show "overridden ov (Some (full_name m c (name a))) \<or> \<not> truthy (redefines a)"
    by (auto simp: association_step_def bind_fuel_def split: if_splits option.splits)
qed

theorem associations_defer_redefinitions_witness:
  "associations 2 library_model None 1
     = Some (Inr [''Book.authors = association('' @ dq @ ''authors'' @ dq
                    @ '', Author, lower=1, opposite='' @ dq @ ''books'' @ dq @ '')'',
                  ''Book.members = derivedunion('' @ dq @ ''members'' @ dq @ '', Element)'',
                  ''Book.writer = redefine(Book, '' @ dq @ ''writer'' @ dq
                    @ '', Author, Element.owner)''])
   \<and> untyped_or_excluded 2 library_model (property_at library_model 0) = Some True
   \<and> association_step 2 library_model None 1 (property_at library_model 0) = Some (Inr Skip)
   \<and> association_step 2 library_model None 1 (property_at library_model 1)
       = Some (Inr (Defer (''Book.writer = redefine(Book, '' @ dq @ ''writer'' @ dq
                             @ '', Author, Element.owner)'')))
   \<and> truthy (redefines (property_at library_model 1))"
proof -
  have ev: "associations 2 library_model None 1
     = Some (Inr [''Book.authors = association('' @ dq @ ''authors'' @ dq
                    @ '', Author, lower=1, opposite='' @ dq @ ''books'' @ dq @ '')'',
                  ''Book.members = derivedunion('' @ dq @ ''members'' @ dq @ '', Element)'',
                  ''Book.writer = redefine(Book, '' @ dq @ ''writer'' @ dq
                    @ '', Author, Element.owner)''])"
    by code_simp
  have un: "untyped_or_excluded 2 library_model (property_at library_model 0) = Some True"
    by code_simp
  have no: "\<not> overridden None (Some (full_name library_model 1 (name (property_at library_model 0))))"
    by (simp add: overridden_def)
  have st: "association_step 2 library_model None 1 (property_at library_model 1)
       = Some (Inr (Defer (''Book.writer = redefine(Book, '' @ dq @ ''writer'' @ dq
                             @ '', Author, Element.owner)'')))"
    by code_simp
  note t = associations_defer_redefinitions [OF ev]
  from t no un have "association_step 2 library_model None 1 (property_at library_model 0)
      = Some (Inr Skip)" by blast
  moreover from t st have "truthy (redefines (property_at library_model 1))" by blast
  ultimately show ?thesis using ev un st by blast
qed

text \<open>
  The attribute \<^verbatim>\<open>title\<close> of the example is a primitive string with no type
  reference; with an override for it, the association pass yields the override.
\<close>

theorem associations_defer_redefinitions_counterexample:
  "ptype (property_at library_model 0) = None
   \<and> typeValue (property_at library_model 0) = Some ''str''
   \<and> associations 2 library_model (Some title_overrides) 1
       = Some (Inr [''# the title is computed'',
                    ''Book.authors = association('' @ dq @ ''authors'' @ dq
                      @ '', Author, lower=1, opposite='' @ dq @ ''books'' @ dq @ '')'',
                    ''Book.members = derivedunion('' @ dq @ ''members'' @ dq @ '', Element)'',
                    ''Book.writer = redefine(Book, '' @ dq @ ''writer'' @ dq
                      @ '', Author, Element.owner)''])"
  by code_simp

subsection \<open>Overrides\<close>

lemma association_step_overridden:
  "overridden ov (Some (full_name m c (name a)))
   \<Longrightarrow> association_step n m ov c a
       = Some (Inr (Yield (override_text ov (Some (full_name m c (name a))))))"
  by (simp add: association_step_def)

lemma variable_line_overridden:
  "overridden ov (Some (full_name m c (name a)))
   \<Longrightarrow> variable_line n m ov c a
       = (if is_extension_end a then Some (Inr [])
          else Some (Inr [fmt (name a) @ '': ''
                          @ override_type ov (Some (full_name m c (name a)))]))"
  by (simp add: variable_line_def)

lemma yields_member:
  "list_all2 (\<lambda>i e. f i = Some (Inr e)) ids es \<Longrightarrow> i \<in> set ids \<Longrightarrow> f i = Some (Inr (Yield l))
   \<Longrightarrow> l \<in> set [l. Yield l \<leftarrow> es]"
proof (induction ids es rule: list_all2_induct)
  case Nil
  then show ?case by simp
next
  case (Cons j ids e es)
  then show ?case by (cases "i = j") auto
qed

lemma associations_override_member:
  assumes run: "associations n m ov c = Some (Inr al)"
    and i: "i \<in> set (ownedAttribute (class_at m c))"
    and ov: "overridden ov (Some (full_name m c (name (property_at m i))))"
  shows "override_text ov (Some (full_name m c (name (property_at m i)))) \<in> set al"
proof -
  from associations_loop_split [OF run [unfolded associations_def]] obtain es where
    es: "list_all2 (\<lambda>i e. association_step n m ov c (property_at m i) = Some (Inr e))
           (ownedAttribute (class_at m c)) es"
    and al: "al = [l. Yield l \<leftarrow> es] @ [l. Defer l \<leftarrow> es]" by auto
  from yields_member [OF es i association_step_overridden [OF ov]] al show ?thesis by simp
qed

lemma association_blocks_member:
  "association_blocks n m sms ov cs imported = Some (Inr ls) \<Longrightarrow> c \<in> set cs
   \<Longrightarrow> \<exists>al. associations n m ov c = Some (Inr al) \<and> set al \<subseteq> set ls"
proof (induction cs arbitrary: imported ls)
  case Nil
  then show ?case by simp
next
  case (Cons d cs)
  from Cons.prems(1) obtain al sl out imported' rest where
    al: "associations n m ov d = Some (Inr al)" and
    sl: "subsets n m sms d = Some (Inr sl)" and
    ps: "pass_subsets sl imported = (out, imported')" and
    rest: "association_blocks n m sms ov cs imported' = Some (Inr rest)" and
    ls: "ls = al @ out @ rest"
    by (auto simp: bind_result_def split: option.splits sum.splits prod.splits)
  show ?case
  proof (cases "c = d")
    case True
    with al ls show ?thesis by auto
  next
    case False
    with Cons.prems(2) have "c \<in> set cs" by simp
    from Cons.IH [OF rest this] ls show ?thesis by auto
  qed
qed

lemma coder_parts:
  assumes "coder n m sms ov = Some (Inr ls)"
  shows "\<exists>cs decls assocs. coder_classes n m = Some cs
           \<and> association_blocks n m sms ov cs (first_imports m sms ov cs) = Some (Inr assocs)
           \<and> concat_results (class_block n m sms ov) cs = Some (Inr decls)
           \<and> ls = [header] @ header_lines ov @ decls @ concat (map (operations m ov) cs)
                   @ [[]] @ assocs"
  using assms
  by (auto simp: coder_def bind_fuel_def bind_result_def split: option.splits sum.splits)

lemma operations_member:
  assumes "opn \<in> set (ownedOperation (class_at m c))"
    and "overridden ov (Some (full_name m c (op_name opn)))"
  shows "override_text ov (Some (full_name m c (op_name opn))) \<in> set (operations m ov c)"
  using assms by (auto simp: operations_def)

text \<open>
  Claim C5. Let a class be in the list of classes of a run of the generator that
  returns. For an owned attribute whose qualified name has an override, the declaration
  pass yields no default property line (it yields nothing for an extension end,
  and otherwise the name with the type of the override), the association pass yields
  the override text and no default association line, and the override text is a line
  of the output. For an owned operation with an override the override text is a line
  of the output as well.
\<close>

theorem override_precedence:
  assumes run: "coder n m sms ov = Some (Inr ls)"
    and cs: "coder_classes n m = Some cs" and c: "c \<in> set cs"
  shows "(\<forall>i\<in>set (ownedAttribute (class_at m c)).
            overridden ov (Some (full_name m c (name (property_at m i)))) \<longrightarrow>
              variable_line n m ov c (property_at m i)
                = (if is_extension_end (property_at m i) then Some (Inr [])
                   else Some (Inr [fmt (name (property_at m i)) @ '': ''
                          @ override_type ov (Some (full_name m c (name (property_at m i))))]))
              \<and> association_step n m ov c (property_at m i)
                  = Some (Inr (Yield (override_text ov
                                        (Some (full_name m c (name (property_at m i)))))))
              \<and> override_text ov (Some (full_name m c (name (property_at m i)))) \<in> set ls)
         \<and> (\<forall>opn\<in>set (ownedOperation (class_at m c)).
              overridden ov (Some (full_name m c (op_name opn))) \<longrightarrow>
                operation_line m ov c opn
                  = Some (Inr [fmt (op_name opn) @ '': ''
                               @ override_type ov (Some (full_name m c (op_name opn)))])
                \<and> override_text ov (Some (full_name m c (op_name opn))) \<in> set ls)"
proof -
  from coder_parts [OF run] cs obtain decls assocs where
    ab: "association_blocks n m sms ov cs (first_imports m sms ov cs) = Some (Inr assocs)"
    and ls: "ls = [header] @ header_lines ov @ decls @ concat (map (operations m ov) cs)
                   @ [[]] @ assocs"
    by auto
  from association_blocks_member [OF ab c] obtain al where
    al: "associations n m ov c = Some (Inr al)" and sub: "set al \<subseteq> set assocs" by blast
  have attr: "override_text ov (Some (full_name m c (name (property_at m i)))) \<in> set ls"
    if "i \<in> set (ownedAttribute (class_at m c))"
      "overridden ov (Some (full_name m c (name (property_at m i))))" for i
    using associations_override_member [OF al that] sub ls by auto
  have oper: "override_text ov (Some (full_name m c (op_name opn))) \<in> set ls"
    if "opn \<in> set (ownedOperation (class_at m c))"
      "overridden ov (Some (full_name m c (op_name opn)))" for opn
    using operations_member [OF that] c ls by auto
  show ?thesis
    using attr oper
    by (simp add: variable_line_overridden association_step_overridden operation_line_def)
qed

theorem override_precedence_witness:
  "coder_classes 3 library_model = Some [0, 1, 2]
   \<and> 2 \<in> set (ownedAttribute (class_at library_model 1))
   \<and> overridden (Some library_overrides)
        (Some (full_name library_model 1 (name (property_at library_model 2))))
   \<and> override_text (Some library_overrides)
        (Some (full_name library_model 1 (name (property_at library_model 2))))
       = ''# authors are kept elsewhere''
   \<and> variable_line 3 library_model (Some library_overrides) 1 (property_at library_model 2)
       = Some (Inr [''authors: relation_many[Author]''])
   \<and> (\<exists>ls. coder 3 library_model [] (Some library_overrides) = Some (Inr ls)
            \<and> ''# authors are kept elsewhere'' \<in> set ls)"
proof -
  have cs: "coder_classes 3 library_model = Some [0, 1, 2]" by code_simp
  have c: "1 \<in> set [0, 1, 2 :: nat]" by simp
  have i: "2 \<in> set (ownedAttribute (class_at library_model 1))" by code_simp
  have ov: "overridden (Some library_overrides)
        (Some (full_name library_model 1 (name (property_at library_model 2))))" by code_simp
  have tx: "override_text (Some library_overrides)
        (Some (full_name library_model 1 (name (property_at library_model 2))))
       = ''# authors are kept elsewhere''" by code_simp
  have vl: "variable_line 3 library_model (Some library_overrides) 1 (property_at library_model 2)
       = Some (Inr [''authors: relation_many[Author]''])" by code_simp
  have "case coder 3 library_model [] (Some library_overrides) of
          Some (Inr ls) \<Rightarrow> True | _ \<Rightarrow> False" by code_simp
  then obtain ls where run: "coder 3 library_model [] (Some library_overrides) = Some (Inr ls)"
    by (auto split: option.splits sum.splits)
  from override_precedence [OF run cs c] i ov tx
  have "''# authors are kept elsewhere'' \<in> set ls" by metis
  with run cs i ov tx vl show ?thesis by blast
qed

subsection \<open>Enumerations\<close>

text \<open>
  The classes that the orderer yields are the classes it was given and their
  transitive bases.
\<close>

lemma select_included_set:
  "select_included n m cs = Some r \<Longrightarrow> d \<in> set r
   \<Longrightarrow> d \<in> set cs \<and> excluded n m d = Some False"
proof (induction cs arbitrary: r)
  case Nil
  then show ?case by simp
next
  case (Cons c cs)
  from Cons.prems(1) obtain e r' where e: "excluded n m c = Some e"
    and r': "select_included n m cs = Some r'" and r: "r = (if e then r' else c # r')"
    by (auto split: option.splits)
  show ?case
  proof (cases "d \<in> set r'")
    case True
    from Cons.IH [OF r' True] show ?thesis by simp
  next
    case False
    with Cons.prems(2) r have "\<not> e" and "d = c" by (auto split: if_splits)
    with e show ?thesis by simp
  qed
qed

lemma excluded_not_enumeration:
  "excluded n m d = Some False \<Longrightarrow> \<not> is_enumeration m (Some d)"
  by (auto simp: excluded_def split: if_splits)

lemma order_all_reach:
  assumes step: "\<And>c s s'. order n m c s = Some s'
            \<Longrightarrow> \<exists>ys. fst s' = fst s @ ys \<and> set ys \<subseteq> {x. (x, c) \<in> (base_rel m)\<^sup>*}"
  shows "order_all n m cs s = Some s'
         \<Longrightarrow> \<exists>ys. fst s' = fst s @ ys \<and> set ys \<subseteq> {x. \<exists>c\<in>set cs. (x, c) \<in> (base_rel m)\<^sup>*}"
proof (induction cs arbitrary: s)
  case Nil
  then show ?case by simp
next
  case (Cons c cs)
  from Cons.prems obtain s1 where s1: "order n m c s = Some s1"
    and rest: "order_all n m cs s1 = Some s'"
    by (auto split: option.splits)
  from step [OF s1] obtain ys1 where
    e1: "fst s1 = fst s @ ys1" and r1: "set ys1 \<subseteq> {x. (x, c) \<in> (base_rel m)\<^sup>*}" by blast
  from Cons.IH [OF rest] obtain ys2 where
    e2: "fst s' = fst s1 @ ys2"
    and r2: "set ys2 \<subseteq> {x. \<exists>c\<in>set cs. (x, c) \<in> (base_rel m)\<^sup>*}" by blast
  have "fst s' = fst s @ (ys1 @ ys2)" using e1 e2 by simp
  moreover have "set (ys1 @ ys2) \<subseteq> {x. \<exists>c'\<in>set (c # cs). (x, c') \<in> (base_rel m)\<^sup>*}"
    using r1 r2 by auto
  ultimately show ?case by blast
qed

lemma order_reach:
  "order n m c s = Some s'
   \<Longrightarrow> \<exists>ys. fst s' = fst s @ ys \<and> set ys \<subseteq> {x. (x, c) \<in> (base_rel m)\<^sup>*}"
proof (induction n arbitrary: c s s')
  case 0
  then show ?case by simp
next
  case (Suc n)
  show ?case
  proof (cases "c \<in> snd s")
    case True
    with Suc.prems have "fst s' = fst s @ []" by simp
    then show ?thesis by fastforce
  next
    case False
    with Suc.prems obtain s1 where s1: "order_all n m (bases m c) s = Some s1"
      and s': "s' = (fst s1 @ [c], insert c (snd s1))"
      by (auto split: option.splits)
    from order_all_reach [OF Suc.IH s1] obtain ys where
      e: "fst s1 = fst s @ ys"
      and r: "set ys \<subseteq> {x. \<exists>b\<in>set (bases m c). (x, b) \<in> (base_rel m)\<^sup>*}" by blast
    have "(x, c) \<in> (base_rel m)\<^sup>*" if "x \<in> set ys" for x
    proof -
      from r that obtain b where "b \<in> set (bases m c)" and xb: "(x, b) \<in> (base_rel m)\<^sup>*" by auto
      then have "(b, c) \<in> base_rel m" by (simp add: base_rel_def)
      with xb show ?thesis by (rule rtrancl_into_rtrancl)
    qed
    then have "set (ys @ [c]) \<subseteq> {x. (x, c) \<in> (base_rel m)\<^sup>*}" by auto
    moreover have "fst s' = fst s @ (ys @ [c])" using s' e by simp
    ultimately show ?thesis by blast
  qed
qed

lemma order_classes_reach:
  assumes "order_classes n m cs = Some out" "x \<in> set out"
  shows "\<exists>c\<in>set cs. (x, c) \<in> (base_rel m)\<^sup>*"
proof -
  from assms(1) obtain s where s: "order_all n m cs ([], {}) = Some s" and o: "out = fst s"
    by (auto simp: order_classes_def)
  have step: "\<And>c s s'. order n m c s = Some s'
            \<Longrightarrow> \<exists>ys. fst s' = fst s @ ys \<and> set ys \<subseteq> {x. (x, c) \<in> (base_rel m)\<^sup>*}"
    by (rule order_reach)
  from order_all_reach [of n m cs "([], {})" s, OF step s]
  obtain ys where "fst s = ys" and "set ys \<subseteq> {x. \<exists>c\<in>set cs. (x, c) \<in> (base_rel m)\<^sup>*}"
    by auto
  with o assms(2) show ?thesis by blast
qed

text \<open>
  Claim C8, as amended. A class whose name ends in \<^verbatim>\<open>Kind\<close> or \<^verbatim>\<open>Sort\<close> is not
  among the classes handed to the orderer; it is in the list of classes of the generator
  only as a transitive base of a class that is not excluded. At an attribute whose type
  is such an enumeration with at least one owned value, and which is not an extension
  end, has no override and no \<^verbatim>\<open>typeValue\<close>, the declaration pass yields the
  enumeration line: the owned values as a list of literals, with the first owned value
  as the default.
\<close>

theorem enumeration_inlined:
  assumes cs: "coder_classes n m = Some out" and e: "is_enumeration m (Some c)"
  shows "(c \<in> set out \<longrightarrow>
            (\<exists>d. d \<in> set (class_ids m) \<and> excluded n m d = Some False
                 \<and> (c, d) \<in> (base_rel m)\<^sup>+))
         \<and> (\<forall>a ov k c' first rest.
               ptype a = Some c \<and> \<not> is_extension_end a \<and> \<not> truthy (typeValue a)
               \<and> \<not> overridden ov (Some (full_name m c' (name a)))
               \<and> ownedAttribute (class_at m c) = first # rest
               \<longrightarrow> variable_line k m ov c' a
                   = Some (Inr [fmt (name a) @ '' = _enumeration('' @ dq @ fmt (name a) @ dq
                                @ '', (''
                                @ join '', '' (map (\<lambda>v. dq @ fmt (name (property_at m v)) @ dq)
                                                 (first # rest))
                                @ ''), '' @ dq @ fmt (name (property_at m first)) @ dq @ '')'']))"
proof (intro conjI impI allI)
  assume c: "c \<in> set out"
  from cs obtain incl where incl: "select_included n m (class_ids m) = Some incl"
    and ord: "order_classes n m incl = Some out"
    by (auto simp: coder_classes_def split: option.splits)
  from order_classes_reach [OF ord c] obtain d where d: "d \<in> set incl"
    and cd: "(c, d) \<in> (base_rel m)\<^sup>*" by blast
  from select_included_set [OF incl d] have d1: "d \<in> set (class_ids m)"
    and d2: "excluded n m d = Some False" by simp_all
  from excluded_not_enumeration [OF d2] e have "c \<noteq> d" by auto
  with cd have "(c, d) \<in> (base_rel m)\<^sup>+" by (auto dest: rtranclD)
  with d1 d2 show "\<exists>d. d \<in> set (class_ids m) \<and> excluded n m d = Some False
                 \<and> (c, d) \<in> (base_rel m)\<^sup>+" by blast
next
  fix a ov k c' first rest
  assume h: "ptype a = Some c \<and> \<not> is_extension_end a \<and> \<not> truthy (typeValue a)
               \<and> \<not> overridden ov (Some (full_name m c' (name a)))
               \<and> ownedAttribute (class_at m c) = first # rest"
  with e show "variable_line k m ov c' a
                   = Some (Inr [fmt (name a) @ '' = _enumeration('' @ dq @ fmt (name a) @ dq
                                @ '', (''
                                @ join '', '' (map (\<lambda>v. dq @ fmt (name (property_at m v)) @ dq)
                                                 (first # rest))
                                @ ''), '' @ dq @ fmt (name (property_at m first)) @ dq @ '')''])"
    by (simp add: variable_line_def enumeration_line_def)
qed

theorem enumeration_inlined_witness:
  "coder_classes 3 library_model = Some [0, 1, 2]
   \<and> is_enumeration library_model (Some 3)
   \<and> 3 \<notin> set [0, 1, 2 :: nat]
   \<and> ptype (property_at library_model 3) = Some 3
   \<and> ownedAttribute (class_at library_model 3) = [6, 7]
   \<and> variable_line 0 library_model None 1 (property_at library_model 3)
       = Some (Inr [''cover = _enumeration('' @ dq @ ''cover'' @ dq @ '', ('' @ dq @ ''hard'' @ dq
                    @ '', '' @ dq @ ''soft'' @ dq @ ''), '' @ dq @ ''hard'' @ dq @ '')''])
   \<and> coder_classes 2 kind_model = Some [0, 1]
   \<and> is_enumeration kind_model (Some 0)
   \<and> (\<exists>d. d \<in> set (class_ids kind_model) \<and> excluded 2 kind_model d = Some False
           \<and> (0, d) \<in> (base_rel kind_model)\<^sup>+)"
proof -
  have cs: "coder_classes 3 library_model = Some [0, 1, 2]" by code_simp
  have e: "is_enumeration library_model (Some 3)" by code_simp
  have a: "ptype (property_at library_model 3) = Some 3"
    "\<not> is_extension_end (property_at library_model 3)"
    "\<not> truthy (typeValue (property_at library_model 3))"
    "\<not> overridden None (Some (full_name library_model 1 (name (property_at library_model 3))))"
    "ownedAttribute (class_at library_model 3) = [6, 7]"
    by code_simp+
  have names: "name (property_at library_model 3) = Some ''cover''"
    "name (property_at library_model 6) = Some ''hard''"
    "name (property_at library_model 7) = Some ''soft''"
    by code_simp+
  from enumeration_inlined [OF cs e] a
  have "variable_line 0 library_model None 1 (property_at library_model 3)
        = Some (Inr [fmt (name (property_at library_model 3)) @ '' = _enumeration('' @ dq
                     @ fmt (name (property_at library_model 3)) @ dq @ '', (''
                     @ join '', '' (map (\<lambda>v. dq @ fmt (name (property_at library_model v)) @ dq)
                                      [6, 7])
                     @ ''), '' @ dq @ fmt (name (property_at library_model 6)) @ dq @ '')''])"
    by blast
  then have vl: "variable_line 0 library_model None 1 (property_at library_model 3)
       = Some (Inr [''cover = _enumeration('' @ dq @ ''cover'' @ dq @ '', ('' @ dq @ ''hard'' @ dq
                    @ '', '' @ dq @ ''soft'' @ dq @ ''), '' @ dq @ ''hard'' @ dq @ '')''])"
    by (simp add: names fmt_def)
  have cs2: "coder_classes 2 kind_model = Some [0, 1]" by code_simp
  have e2: "is_enumeration kind_model (Some 0)" by code_simp
  from enumeration_inlined [OF cs2 e2]
  have "\<exists>d. d \<in> set (class_ids kind_model) \<and> excluded 2 kind_model d = Some False
           \<and> (0, d) \<in> (base_rel kind_model)\<^sup>+" by simp
  with cs e a(1) a(5) vl cs2 e2 show ?thesis by simp
qed

text \<open>
  In the first example the enumeration \<^verbatim>\<open>VisibilityKind\<close> is the base of a class that
  is kept, and the generator declares it as a class. In the second the enumeration owns
  no value, and the attribute of that type raises \<^verbatim>\<open>IndexError\<close>.
\<close>

theorem enumeration_inlined_counterexample:
  "is_enumeration kind_model (Some 0)
   \<and> coder_classes 2 kind_model = Some [0, 1]
   \<and> class_declaration kind_model 0 = Inr ''class VisibilityKind():''
   \<and> (case coder 2 kind_model [] None of
        Some (Inr ls) \<Rightarrow> ''class VisibilityKind():'' \<in> set ls
      | _ \<Rightarrow> False)
   \<and> is_enumeration sort_model (Some 0)
   \<and> ptype (property_at sort_model 0) = Some 0
   \<and> variable_line 0 sort_model None 1 (property_at sort_model 0) = Some (Inl IndexError)
   \<and> coder 1 sort_model [] None = Some (Inl IndexError)"
  by code_simp

end
